theory Spec2Isabelle
  imports Main
begin

section \<open>Rule engine of Chain-Fox: a shallow embedding of rule\_engine\_core.py\<close>

text \<open>
  The module compiles a rule file into regular expressions (\<open>load_filter_patterns\<close>) and
  filters a parsed JSON analysis document in place (\<open>apply_filter\<close>). The embedding keeps
  Python's dynamic typing: a document is any JSON value, and every operation that raises
  on a value of the wrong type returns the exception as a value.

  Conventions of the embedding:
  \<^item> a Python \<open>str\<close> is a \<open>string\<close>, so the characters are the code points below 256;
  \<^item> a JSON number is an \<open>int\<close> (floating point numbers are left out);
  \<^item> a \<open>dict\<close> is an association list in insertion order; a dictionary built by
    \<open>json.load\<close> has no key twice (\<open>wf_json\<close> below);
  \<^item> file input and output are left out: \<open>load_filter_patterns\<close> takes the lines of
    the rule file, \<open>apply_filter\<close> takes the parsed document and returns it as it stands
    after the call.
\<close>

subsection \<open>JSON values and the Python operations used on them\<close>

datatype json = JNull | JBool bool | JInt int | JStr string
  | JArr "json list" | JObj "(string \<times> json) list"

datatype error = TypeError | AttributeError

text \<open>
  Python's \<open>==\<close> on parsed JSON: \<open>True == 1\<close> and \<open>False == 0\<close> hold, lists are compared
  element by element, and two dictionaries are equal when they have the same number of
  entries and every key of the first is a key of the second with an equal value.
\<close>

fun py_eq :: "json \<Rightarrow> json \<Rightarrow> bool" where
  "py_eq JNull JNull = True"
| "py_eq (JBool a) (JBool b) = (a = b)"
| "py_eq (JBool a) (JInt j) = ((if a then 1 else 0) = j)"
| "py_eq (JInt i) (JBool b) = (i = (if b then 1 else 0))"
| "py_eq (JInt i) (JInt j) = (i = j)"
| "py_eq (JStr s) (JStr t) = (s = t)"
| "py_eq (JArr xs) (JArr ys) = list_all2 py_eq xs ys"
| "py_eq (JObj a) (JObj b) =
     (length a = length b \<and>
      list_all (\<lambda>(k, v). case map_of b k of None \<Rightarrow> False | Some w \<Rightarrow> py_eq v w) a)"
| "py_eq _ _ = False"

text \<open>\<open>x in xs\<close> for a list \<open>xs\<close>: some item of the list equals \<open>x\<close>.\<close>

definition py_in_list :: "json \<Rightarrow> json list \<Rightarrow> bool" where
  "py_in_list x xs = list_ex (\<lambda>item. py_eq item x) xs"

text \<open>Lists and dictionaries are unhashable: using one as a key or set element raises.\<close>

fun hashable :: "json \<Rightarrow> bool" where
  "hashable (JArr xs) = False"
| "hashable (JObj kvs) = False"
| "hashable _ = True"

text \<open>\<open>s in t\<close> for two strings: \<open>s\<close> occurs in \<open>t\<close> as a substring.\<close>

fun str_contains :: "string \<Rightarrow> string \<Rightarrow> bool" where
  "str_contains t [] = (t = [])"
| "str_contains t (c # cs) = (take (length t) (c # cs) = t \<or> str_contains t cs)"

text \<open>
  \<open>s in x\<close> for a string \<open>s\<close> and any value \<open>x\<close>: key membership for a dictionary, item
  membership for a list, substring test for a string, \<open>TypeError\<close> otherwise
  ("argument of type ... is not iterable").
\<close>

fun py_str_in :: "string \<Rightarrow> json \<Rightarrow> error + bool" where
  "py_str_in s (JObj kvs) = Inr (s \<in> set (map fst kvs))"
| "py_str_in s (JArr xs) = Inr (py_in_list (JStr s) xs)"
| "py_str_in s (JStr t) = Inr (str_contains s t)"
| "py_str_in s _ = Inl TypeError"

text \<open>\<open>x.get(key, default)\<close>: only a dictionary has the method.\<close>

fun py_get :: "json \<Rightarrow> string \<Rightarrow> json \<Rightarrow> error + json" where
  "py_get (JObj kvs) key dflt = Inr (case map_of kvs key of None \<Rightarrow> dflt | Some v \<Rightarrow> v)"
| "py_get _ key dflt = Inl AttributeError"

text \<open>
  \<open>for item in x\<close>: the items of a list, the one-character strings of a string, the keys
  of a dictionary; anything else is not iterable.
\<close>

fun py_iter :: "json \<Rightarrow> error + json list" where
  "py_iter (JArr xs) = Inr xs"
| "py_iter (JStr s) = Inr (map (\<lambda>c. JStr [c]) s)"
| "py_iter (JObj kvs) = Inr (map (\<lambda>kv. JStr (fst kv)) kvs)"
| "py_iter _ = Inl TypeError"

text \<open>\<open>d[key] = v\<close> on the entries of a dictionary: replace in place or add at the end.\<close>

fun set_item :: "(string \<times> json) list \<Rightarrow> string \<Rightarrow> json \<Rightarrow> (string \<times> json) list" where
  "set_item [] key v = [(key, v)]"
| "set_item ((k, w) # kvs) key v =
     (if k = key then (k, v) # kvs else (k, w) # set_item kvs key v)"

subsection \<open>Compiled patterns\<close>

text \<open>
  The patterns the module compiles use five constructs only: a literal character (what
  \<open>re.escape\<close> produces for each character of its argument), an optional literal
  (\<open>\(?\<close>), \<open>\s*\<close>, \<open>[^/]+\<close> and \<open>$\<close>. A compiled pattern is the list of its atoms.
\<close>

datatype charclass = Whitespace | NotSlash

datatype atom = Literal char | Optional char | ZeroOrMore charclass
  | OneOrMore charclass | EndOfString

type_synonym pattern = "atom list"

text \<open>Python's \<open>str.isspace\<close>, which \<open>\s\<close> and \<open>str.strip\<close> use, below code point 256.\<close>

definition isspace :: "char \<Rightarrow> bool" where
  "isspace c = (c \<in> set [CHR 0x09, CHR 0x0A, CHR 0x0B, CHR 0x0C, CHR 0x0D,
     CHR 0x1C, CHR 0x1D, CHR 0x1E, CHR 0x1F, CHR 0x20, CHR 0x85, CHR 0xA0])"

fun in_class :: "charclass \<Rightarrow> char \<Rightarrow> bool" where
  "in_class Whitespace c = isspace c"
| "in_class NotSlash c = (c \<noteq> CHR ''/'')"

text \<open>
  \<open>match_here p s\<close>: the pattern matches a prefix of \<open>s\<close>. Without the \<open>MULTILINE\<close> flag
  \<open>$\<close> matches at the end of the string and before a newline that ends the string.
\<close>

fun match_here :: "pattern \<Rightarrow> string \<Rightarrow> bool" where
  "match_here [] s = True"
| "match_here (Literal c # p) [] = False"
| "match_here (Literal c # p) (x # xs) = (x = c \<and> match_here p xs)"
| "match_here (Optional c # p) [] = match_here p []"
| "match_here (Optional c # p) (x # xs) =
     ((x = c \<and> match_here p xs) \<or> match_here p (x # xs))"
| "match_here (ZeroOrMore k # p) [] = match_here p []"
| "match_here (ZeroOrMore k # p) (x # xs) =
     ((in_class k x \<and> match_here (ZeroOrMore k # p) xs) \<or> match_here p (x # xs))"
| "match_here (OneOrMore k # p) [] = False"
| "match_here (OneOrMore k # p) (x # xs) =
     (in_class k x \<and> match_here (ZeroOrMore k # p) xs)"
| "match_here (EndOfString # p) s = ((s = [] \<or> s = [CHR 0x0A]) \<and> match_here p s)"

text \<open>\<open>regex.search(s)\<close> as a truth value: the pattern matches at some position of \<open>s\<close>.\<close>

fun re_search :: "pattern \<Rightarrow> string \<Rightarrow> bool" where
  "re_search p [] = match_here p []"
| "re_search p (x # xs) = (match_here p (x # xs) \<or> re_search p xs)"

text \<open>\<open>regex.search(x)\<close> on any value: "expected string or bytes-like object".\<close>

fun py_search :: "pattern \<Rightarrow> json \<Rightarrow> error + bool" where
  "py_search p (JStr s) = Inr (re_search p s)"
| "py_search p _ = Inl TypeError"

subsection \<open>load\_filter\_patterns\<close>

definition literal :: "string \<Rightarrow> pattern" where
  "literal s = map Literal s"

definition strip :: "string \<Rightarrow> string" where
  "strip s = rev (dropWhile isspace (rev (dropWhile isspace s)))"

text \<open>The body of the loop for one non-blank, stripped line.\<close>

definition compile_path :: "string \<Rightarrow> pattern" where
  "compile_path path =
     (if CHR ''/'' \<in> set path then
        (let crate_with_version = takeWhile (\<lambda>c. c \<noteq> CHR ''/'') path;
             subpath = tl (dropWhile (\<lambda>c. c \<noteq> CHR ''/'') path);
             crate_name = takeWhile (\<lambda>c. c \<noteq> CHR ''-'') crate_with_version
         in literal crate_name @ [Literal (CHR ''-''), OneOrMore NotSlash, Literal (CHR ''/'')]
            @ literal subpath)
      else literal path)"

text \<open>The additional hardcoded rules, in the order they are appended.\<close>

definition builtin_rules :: "pattern list" where
  "builtin_rules =
     [ [Optional (CHR ''('')] @ literal ''virtual'' @ [Optional (CHR '')''), ZeroOrMore Whitespace]
         @ literal ''lockbud'',
       [Optional (CHR ''('')] @ literal ''virtual'' @ [Optional (CHR '')''), ZeroOrMore Whitespace]
         @ literal ''audit'',
       literal ''/Cargo.lock'' @ [EndOfString],
       literal ''[lockbud] Not supported to display yet.'',
       literal ''rustlib/src/rust/library'' ]"

fun compile_lines :: "string list \<Rightarrow> pattern list" where
  "compile_lines [] = []"
| "compile_lines (line # rest) =
     (let path = strip line in
      if path = [] then compile_lines rest
      else compile_path path # compile_lines rest)"

definition load_filter_patterns :: "string list \<Rightarrow> pattern list" where
  "load_filter_patterns file_lines = compile_lines file_lines @ builtin_rules"

subsection \<open>apply\_filter\<close>

text \<open>
  \<open>any(regex.search(report.get("file", "")) for regex in filters)\<close>: the generator
  evaluates \<open>report.get\<close> once for each pattern it reaches, so with no pattern nothing is
  evaluated, and it stops at the first pattern that matches.
\<close>

fun matches_any :: "pattern list \<Rightarrow> json \<Rightarrow> error + bool" where
  "matches_any [] report = Inr False"
| "matches_any (regex # rest) report =
     (case py_get report ''file'' (JStr []) of
        Inl e \<Rightarrow> Inl e
      | Inr file \<Rightarrow>
          (case py_search regex file of
             Inl e \<Rightarrow> Inl e
           | Inr True \<Rightarrow> Inr True
           | Inr False \<Rightarrow> matches_any rest report))"

text \<open>The list comprehension that builds \<open>filtered\<close>.\<close>

fun filter_reports :: "pattern list \<Rightarrow> json list \<Rightarrow> error + json list" where
  "filter_reports filters [] = Inr []"
| "filter_reports filters (report # rest) =
     (case matches_any filters report of
        Inl e \<Rightarrow> Inl e
      | Inr m \<Rightarrow>
          (case filter_reports filters rest of
             Inl e \<Rightarrow> Inl e
           | Inr kept \<Rightarrow> Inr (if m then kept else report # kept)))"

text \<open>
  \<open>all_files_pkg\<close> maps a file to the set of package names that report it. The sets are
  never read; they are kept as lists without repetition.
\<close>

type_synonym files_pkg = "(json \<times> json list) list"

definition has_file :: "files_pkg \<Rightarrow> json \<Rightarrow> bool" where
  "has_file all_files_pkg file = list_ex (\<lambda>entry. py_eq (fst entry) file) all_files_pkg"

fun add_pkg :: "files_pkg \<Rightarrow> json \<Rightarrow> json \<Rightarrow> files_pkg" where
  "add_pkg [] file pkg_name = []"
| "add_pkg ((f, names) # rest) file pkg_name =
     (if py_eq f file
      then (f, if py_in_list pkg_name names then names else names @ [pkg_name]) # rest
      else (f, names) # add_pkg rest file pkg_name)"

text \<open>
  The loop \<open>for raw_report in filtered\<close> of the first pass. The state is
  \<open>all_files_pkg\<close>, the entries of the dictionary \<open>package\<close> and \<open>valid_packages\<close>.
  \<open>valid_packages\<close> holds references: a package appended to it and assigned to again in
  a later iteration is assigned the same two values, so the list holds its final value.
\<close>

fun report_loop :: "json \<Rightarrow> json list \<Rightarrow> json list
    \<Rightarrow> files_pkg \<times> (string \<times> json) list \<times> json list
    \<Rightarrow> error + (files_pkg \<times> (string \<times> json) list \<times> json list)" where
  "report_loop pkg_name filtered [] state = Inr state"
| "report_loop pkg_name filtered (raw_report # rest) (all_files_pkg, package, valid_packages) =
     (case py_get raw_report ''file'' (JStr []) of
        Inl e \<Rightarrow> Inl e
      | Inr file \<Rightarrow>
          if \<not> hashable file then Inl TypeError
          else if has_file all_files_pkg file then
            (if \<not> hashable pkg_name then Inl TypeError
             else report_loop pkg_name filtered rest
                    (add_pkg all_files_pkg file pkg_name, package, valid_packages))
          else if \<not> hashable pkg_name then Inl TypeError
          else
            (let all_files_pkg' = all_files_pkg @ [(file, [pkg_name])];
                 count = length filtered
             in if count > 0 then
                  (let package' = set_item (set_item package ''raw_reports'' (JArr filtered))
                                    ''count'' (JInt (int (length filtered)))
                   in report_loop pkg_name filtered rest
                        (all_files_pkg', package',
                         if \<not> py_in_list (JObj package') valid_packages
                         then valid_packages @ [JObj package'] else valid_packages))
                else report_loop pkg_name filtered rest
                       (all_files_pkg', package, valid_packages)))"

text \<open>
  The body of the first loop over the packages, for one package. \<open>package\<close> is a
  reference to an item of the list \<open>data["data"]\<close>, so the assignments to
  \<open>package["raw_reports"]\<close> and \<open>package["count"]\<close> change the list: the body returns
  the package as it stands afterwards.
\<close>

definition package_body :: "pattern list \<Rightarrow> json \<Rightarrow> files_pkg \<times> json list
    \<Rightarrow> error + (files_pkg \<times> json \<times> json list)" where
  "package_body filters package state =
     (case py_get package ''pkg'' (JStr []) of
        Inl e \<Rightarrow> Inl e
      | Inr pkg_name \<Rightarrow>
          (case py_get package ''raw_reports'' (JArr []) of
             Inl e \<Rightarrow> Inl e
           | Inr raw_reports \<Rightarrow>
               (case py_iter raw_reports of
                  Inl e \<Rightarrow> Inl e
                | Inr reports \<Rightarrow>
                    (case filter_reports filters reports of
                       Inl e \<Rightarrow> Inl e
                     | Inr filtered \<Rightarrow>
                         (case package of
                            JObj entries \<Rightarrow>
                              (case report_loop pkg_name filtered filtered
                                      (fst state, entries, snd state) of
                                 Inl e \<Rightarrow> Inl e
                               | Inr (all_files_pkg', entries', valid_packages') \<Rightarrow>
                                   Inr (all_files_pkg', JObj entries', valid_packages'))
                          | _ \<Rightarrow> Inl AttributeError)))))"

text \<open>
  The first loop over the packages. The state is \<open>all_files_pkg\<close>, the packages already
  visited as the loop left them, and \<open>valid_packages\<close>.
\<close>

fun package_loop :: "pattern list \<Rightarrow> json list \<Rightarrow> files_pkg \<times> json list \<times> json list
    \<Rightarrow> error + (files_pkg \<times> json list \<times> json list)" where
  "package_loop filters [] state = Inr state"
| "package_loop filters (package # rest) (all_files_pkg, visited, valid_packages) =
     (case package_body filters package (all_files_pkg, valid_packages) of
        Inl e \<Rightarrow> Inl e
      | Inr (all_files_pkg', package', valid_packages') \<Rightarrow>
          package_loop filters rest (all_files_pkg', visited @ [package'], valid_packages'))"

text \<open>The second pass: the inner loop over the reports of one package.\<close>

fun find_lock :: "json list \<Rightarrow> error + json option" where
  "find_lock [] = Inr None"
| "find_lock (raw_report # rest) =
     (case py_get raw_report ''file'' (JStr []) of
        Inl e \<Rightarrow> Inl e
      | Inr file \<Rightarrow>
          (case py_str_in ''Cargo.lock'' file of
             Inl e \<Rightarrow> Inl e
           | Inr True \<Rightarrow> Inr (Some raw_report)
           | Inr False \<Rightarrow> find_lock rest))"

text \<open>The second pass: the outer loop, left at the first package with such a report.\<close>

fun lockfile_loop :: "json list \<Rightarrow> error + json option" where
  "lockfile_loop [] = Inr None"
| "lockfile_loop (package # rest) =
     (case py_get package ''pkg'' (JStr []) of
        Inl e \<Rightarrow> Inl e
      | Inr pkg_name \<Rightarrow>
          (case py_get package ''raw_reports'' (JArr []) of
             Inl e \<Rightarrow> Inl e
           | Inr raw_reports \<Rightarrow>
               (case py_iter raw_reports of
                  Inl e \<Rightarrow> Inl e
                | Inr reports \<Rightarrow>
                    (case find_lock reports of
                       Inl e \<Rightarrow> Inl e
                     | Inr (Some raw_report) \<Rightarrow> Inr (Some raw_report)
                     | Inr None \<Rightarrow> lockfile_loop rest))))"

text \<open>
  \<open>apply_filter data filters\<close> returns the document after the call, or the exception.
  Both loops iterate \<open>data.get("data", [])\<close>, the same list object: the second loop sees
  the packages as the first loop left them.
\<close>

definition apply_filter :: "json \<Rightarrow> pattern list \<Rightarrow> error + json" where
  "apply_filter data filters =
     (case py_str_in ''data'' data of
        Inl e \<Rightarrow> Inl e
      | Inr False \<Rightarrow> Inr data
      | Inr True \<Rightarrow>
          (case py_get data ''data'' (JArr []) of
             Inl e \<Rightarrow> Inl e
           | Inr d \<Rightarrow>
               (case py_iter d of
                  Inl e \<Rightarrow> Inl e
                | Inr packages \<Rightarrow>
                    (case package_loop filters packages ([], [], []) of
                       Inl e \<Rightarrow> Inl e
                     | Inr (all_files_pkg, packages', valid_packages) \<Rightarrow>
                         (case lockfile_loop packages' of
                            Inl e \<Rightarrow> Inl e
                          | Inr found \<Rightarrow>
                              (case data of
                                 JObj entries \<Rightarrow>
                                   Inr (JObj (set_item entries ''data''
                                     (JArr (valid_packages @
                                        (case found of None \<Rightarrow> [] | Some raw_report \<Rightarrow> [raw_report])))))
                               | _ \<Rightarrow> Inl TypeError))))))"

subsection \<open>Well-formed values and the shape of a document\<close>


text \<open>
  The shape the module expects, with the optional fields: a report is a dictionary whose
  \<open>file\<close>, when present, is a string; a package is a dictionary whose \<open>pkg\<close>, when
  present, is hashable and whose \<open>raw_reports\<close>, when present, is a list of reports.
\<close>

definition report_shaped :: "json \<Rightarrow> bool" where
  "report_shaped r = (case r of
       JObj e \<Rightarrow> (case map_of e ''file'' of None \<Rightarrow> True | Some (JStr s) \<Rightarrow> True | Some _ \<Rightarrow> False)
     | _ \<Rightarrow> False)"

definition package_shaped :: "json \<Rightarrow> bool" where
  "package_shaped p = (case p of
       JObj e \<Rightarrow>
         (case map_of e ''pkg'' of None \<Rightarrow> True | Some v \<Rightarrow> hashable v) \<and>
         (case map_of e ''raw_reports'' of None \<Rightarrow> True
          | Some (JArr rs) \<Rightarrow> list_all report_shaped rs | Some _ \<Rightarrow> False)
     | _ \<Rightarrow> False)"

subsection \<open>Notions used in the statements\<close>

text \<open>The two assignments to \<open>package\<close> in the first loop, on the entries of the package.\<close>

definition rewrite_package :: "json list \<Rightarrow> (string \<times> json) list \<Rightarrow> (string \<times> json) list" where
  "rewrite_package filtered package =
     set_item (set_item package ''raw_reports'' (JArr filtered))
       ''count'' (JInt (int (length filtered)))"

text \<open>The reports the loops iterate for a package; none when the loop would raise.\<close>

definition package_reports :: "json \<Rightarrow> json list" where
  "package_reports package =
     (case py_get package ''raw_reports'' (JArr []) of
        Inl e \<Rightarrow> []
      | Inr raw_reports \<Rightarrow> (case py_iter raw_reports of Inl e \<Rightarrow> [] | Inr reports \<Rightarrow> reports))"

text \<open>The test of the second loop: \<open>"Cargo.lock" in raw_report.get("file", "")\<close> holds.\<close>

definition names_lockfile :: "json \<Rightarrow> bool" where
  "names_lockfile raw_report =
     (case py_get raw_report ''file'' (JStr []) of
        Inl e \<Rightarrow> False
      | Inr file \<Rightarrow> py_str_in ''Cargo.lock'' file = Inr True)"

text \<open>
  How the first loop leaves a package: untouched, or rewritten to its non-empty filtered
  list.
\<close>

definition left_by_first_loop :: "pattern list \<Rightarrow> json \<Rightarrow> json \<Rightarrow> bool" where
  "left_by_first_loop filters package package' =
     (package' = package \<or>
      (\<exists>entries filtered. package = JObj entries \<and>
         filter_reports filters (package_reports package) = Inr filtered \<and>
         filtered \<noteq> [] \<and> package' = JObj (rewrite_package filtered entries)))"

text \<open>\<open>raw_report.get("file", "")\<close> as a total function, for reports that are dictionaries.\<close>

definition report_file :: "json \<Rightarrow> json" where
  "report_file raw_report =
     (case py_get raw_report ''file'' (JStr []) of Inl e \<Rightarrow> JNull | Inr file \<Rightarrow> file)"

text \<open>The reports of a package that no rule removes; none when the comprehension raises.\<close>

definition surviving :: "pattern list \<Rightarrow> json \<Rightarrow> json list" where
  "surviving filters package =
     (case filter_reports filters (package_reports package) of Inl e \<Rightarrow> [] | Inr kept \<Rightarrow> kept)"

text \<open>Some surviving report of one of the packages is on the file.\<close>

definition seen_in :: "pattern list \<Rightarrow> json list \<Rightarrow> json \<Rightarrow> bool" where
  "seen_in filters packages file =
     list_ex (\<lambda>package. list_ex (\<lambda>r. py_eq (report_file r) file) (surviving filters package))
       packages"

subsection \<open>Invariants of the first loop\<close>

text \<open>A package as the first loop rewrites it: \<open>raw_reports\<close> and \<open>count\<close> are set.\<close>

definition rewritten :: "json list \<Rightarrow> json \<Rightarrow> bool" where
  "rewritten filtered q = (\<exists>e. q = JObj e \<and> map_of e ''raw_reports'' = Some (JArr filtered)
      \<and> map_of e ''count'' = Some (JInt (int (length filtered))))"

text \<open>A package that satisfies the invariant of retained packages.\<close>

definition retained_ok :: "pattern list \<Rightarrow> json \<Rightarrow> bool" where
  "retained_ok filters q = (\<exists>e rs. q = JObj e \<and> map_of e ''raw_reports'' = Some (JArr rs)
      \<and> map_of e ''count'' = Some (JInt (int (length rs)))
      \<and> (\<forall>r\<in>set rs. \<forall>regex\<in>set filters.
            \<exists>s. py_get r ''file'' (JStr []) = Inr (JStr s) \<and> \<not> re_search regex s))"



subsection \<open>Example documents\<close>

definition report_on :: "string \<Rightarrow> json" where
  "report_on file = JObj [(''file'', JStr file)]"

text \<open>The document \<open>{"data":[{"pkg":"p1","raw_reports":[{"file":"x/Cargo.lock"},{"file":"src/main.rs"}]}]}\<close>.\<close>

definition lockfile_and_source_doc :: json where
  "lockfile_and_source_doc =
     JObj [(''data'', JArr [JObj [(''pkg'', JStr ''p1''),
       (''raw_reports'', JArr [report_on ''x/Cargo.lock'', report_on ''src/main.rs''])]])]"

text \<open>A single package whose single report is on the file \<open>Cargo.lock\<close>, with no directory.\<close>

definition bare_lockfile_doc :: json where
  "bare_lockfile_doc =
     JObj [(''data'', JArr [JObj [(''pkg'', JStr ''p1''),
       (''raw_reports'', JArr [report_on ''Cargo.lock''])]])]"

text \<open>A document with a user field next to \<open>data\<close>, and one without \<open>data\<close>.\<close>

definition tagged_doc :: "(string \<times> json) list" where
  "tagged_doc = [(''tool'', JStr ''lockbud''),
     (''data'', JArr [JObj [(''pkg'', JStr ''p1''),
        (''raw_reports'', JArr [report_on ''src/lib.rs'', report_on ''/rustlib/src/rust/library/core/cell.rs''])]]),
     (''version'', JInt 2)]"

definition no_data_doc :: "(string \<times> json) list" where
  "no_data_doc = [(''tool'', JStr ''lockbud''), (''version'', JInt 2)]"

text \<open>
  Two packages with a field missing: the first has no \<open>pkg\<close> and its report has no
  \<open>file\<close>, the second reports on the file with the empty name.
\<close>

definition missing_fields_doc :: "(string \<times> json) list" where
  "missing_fields_doc = [(''data'', JArr
     [JObj [(''raw_reports'', JArr [JObj [(''line'', JInt 1)]])],
      JObj [(''pkg'', JStr ''b''), (''raw_reports'', JArr [JObj [(''file'', JStr [])]])]])]"

text \<open>
  Two packages: the first reports on a lockfile and on a source file, the second on a
  lockfile only.
\<close>

definition two_lockfiles_packages :: "json list" where
  "two_lockfiles_packages =
     [JObj [(''pkg'', JStr ''p1''),
        (''raw_reports'', JArr [report_on ''x/Cargo.lock'', report_on ''src/main.rs''])],
      JObj [(''pkg'', JStr ''p2''), (''raw_reports'', JArr [report_on ''y/Cargo.lock''])]]"

definition two_lockfiles_doc :: "(string \<times> json) list" where
  "two_lockfiles_doc = [(''data'', JArr two_lockfiles_packages)]"

text \<open>A single package whose only report is on a lockfile.\<close>

definition lockfile_only_doc :: "(string \<times> json) list" where
  "lockfile_only_doc =
     [(''data'', JArr [JObj [(''pkg'', JStr ''a''),
        (''raw_reports'', JArr [report_on ''x/Cargo.lock''])]])]"

text \<open>A package with surviving reports between two packages whose reports are all removed.\<close>

definition mixed_packages_doc :: "(string \<times> json) list" where
  "mixed_packages_doc =
     [(''data'', JArr
        [JObj [(''pkg'', JStr ''a''), (''raw_reports'', JArr [report_on ''(virtual) lockbud''])],
         JObj [(''pkg'', JStr ''b''), (''raw_reports'', JArr [report_on ''src/b.rs''])],
         JObj [(''pkg'', JStr ''c''), (''raw_reports'', JArr [report_on ''virtual audit'', report_on ''z/Cargo.lock''])]])]"





text \<open>
  How the first loop leaves one package, given the packages before it: rewritten to its
  surviving reports when one of them is on a file that no surviving report of an
  earlier package is on, and untouched otherwise.
\<close>

definition left_as :: "pattern list \<Rightarrow> json list \<Rightarrow> json \<Rightarrow> json" where
  "left_as filters before package =
     (case package of
        JObj entries \<Rightarrow>
          if list_ex (\<lambda>r. \<not> seen_in filters before (report_file r)) (surviving filters package)
          then JObj (rewrite_package (surviving filters package) entries)
          else package
      | _ \<Rightarrow> package)"

text \<open>The packages of a data list as the first loop leaves them, one for one and in order.\<close>

fun first_loop_leaves :: "pattern list \<Rightarrow> json list \<Rightarrow> json list \<Rightarrow> json list" where
  "first_loop_leaves filters before [] = []"
| "first_loop_leaves filters before (package # rest) =
     left_as filters before package # first_loop_leaves filters (before @ [package]) rest"


section \<open>Auxiliary lemmas\<close>

subsection \<open>Dictionaries\<close>

lemma map_of_set_item:
  "map_of (set_item entries key v) k = (if k = key then Some v else map_of entries k)"
  by (induction entries key v rule: set_item.induct) auto

subsection \<open>What the first loop appends\<close>

lemma rewritten_set_item:
  "rewritten filtered (JObj (set_item (set_item package ''raw_reports'' (JArr filtered))
      ''count'' (JInt (int (length filtered)))))"
  by (simp add: rewritten_def map_of_set_item)

lemma report_loop_valid:
  "report_loop pkg_name filtered rest (m, p, v) = Inr (m', p', v') \<Longrightarrow>
   q \<in> set v' \<Longrightarrow> q \<in> set v \<or> rewritten filtered q"
proof (induction rest arbitrary: m p v)
  case Nil
  then show ?case by simp
next
  case (Cons r rest)
  from Cons.prems(1) obtain m1 p1 v1 where
    step: "report_loop pkg_name filtered rest (m1, p1, v1) = Inr (m', p', v')"
    and v1: "set v1 \<subseteq> set v \<union> {JObj (set_item (set_item p ''raw_reports'' (JArr filtered))
      ''count'' (JInt (int (length filtered))))}"
    by (auto split: sum.splits if_splits simp: Let_def)
  from Cons.IH[OF step Cons.prems(2)] v1 show ?case
    using rewritten_set_item by blast
qed

lemma matches_any_False:
  "matches_any filters r = Inr False \<Longrightarrow> regex \<in> set filters \<Longrightarrow>
   \<exists>s. py_get r ''file'' (JStr []) = Inr (JStr s) \<and> \<not> re_search regex s"
proof (induction filters)
  case Nil
  then show ?case by simp
next
  case (Cons a filters)
  from Cons.prems obtain fl where f: "py_get r ''file'' (JStr []) = Inr fl"
    by (auto split: sum.splits)
  with Cons.prems obtain s where s: "fl = JStr s"
    by (cases fl) (auto split: sum.splits)
  show ?case using Cons f s by (auto split: sum.splits bool.splits if_splits)
qed

lemma filter_reports_sound:
  "filter_reports filters rs = Inr kept \<Longrightarrow> r \<in> set kept \<Longrightarrow>
   r \<in> set rs \<and> matches_any filters r = Inr False"
proof (induction rs arbitrary: kept)
  case Nil
  then show ?case by simp
next
  case (Cons a rs)
  then show ?case by (fastforce split: sum.splits if_splits)
qed

lemma package_body_valid:
  assumes "package_body filters package (m, v) = Inr (m', p', v')" and "q \<in> set v'"
  shows "q \<in> set v \<or> retained_ok filters q"
proof -
  from assms(1) obtain pkg_name reports filtered entries entries' where
    fl: "filter_reports filters reports = Inr filtered"
    and rl: "report_loop pkg_name filtered filtered (m, entries, v) = Inr (m', entries', v')"
    unfolding package_body_def
    by (auto split: sum.splits json.splits prod.splits)
  have "retained_ok filters q" if "rewritten filtered q"
    using that filter_reports_sound[OF fl] matches_any_False
    unfolding retained_ok_def rewritten_def by blast
  then show ?thesis using report_loop_valid[OF rl assms(2)] by blast
qed

lemma package_loop_valid:
  "package_loop filters pkgs (m, d, v) = Inr (m', d', v') \<Longrightarrow>
   q \<in> set v' \<Longrightarrow> q \<in> set v \<or> retained_ok filters q"
proof (induction pkgs arbitrary: m d v)
  case Nil
  then show ?case by simp
next
  case (Cons package rest)
  from Cons.prems(1) obtain m1 p1 v1 where
    body: "package_body filters package (m, v) = Inr (m1, p1, v1)"
    and loop: "package_loop filters rest (m1, d @ [p1], v1) = Inr (m', d', v')"
    by (auto split: sum.splits prod.splits)
  from Cons.IH[OF loop Cons.prems(2)] package_body_valid[OF body] show ?case by blast
qed

lemma apply_filter_no_data:
  "''data'' \<notin> set (map fst entries) \<Longrightarrow> apply_filter (JObj entries) filters = Inr (JObj entries)"
  by (simp add: apply_filter_def)

lemma apply_filter_result_shape:
  assumes "apply_filter (JObj entries) filters = Inr out"
  shows "out = JObj entries \<or> (\<exists>v. out = JObj (set_item entries ''data'' v))"
  using assms unfolding apply_filter_def
  by (auto split: sum.splits bool.splits prod.splits if_splits)

lemma apply_filter_data:
  assumes "apply_filter (JObj entries) filters = Inr out" and "''data'' \<in> set (map fst entries)"
  shows "\<exists>d packages m visited valid_packages found.
     py_get (JObj entries) ''data'' (JArr []) = Inr d \<and> py_iter d = Inr packages \<and>
     package_loop filters packages ([], [], []) = Inr (m, visited, valid_packages) \<and>
     lockfile_loop visited = Inr found \<and>
     out = JObj (set_item entries ''data''
       (JArr (valid_packages @ (case found of None \<Rightarrow> [] | Some raw_report \<Rightarrow> [raw_report]))))"
  using assms unfolding apply_filter_def
  by (auto split: sum.splits prod.splits)

subsection \<open>No exception on documents of the expected shape\<close>

lemma report_shaped_file:
  "report_shaped r \<Longrightarrow> \<exists>s. py_get r ''file'' (JStr []) = Inr (JStr s)"
  unfolding report_shaped_def by (auto split: json.splits option.splits)

lemma matches_any_total:
  "report_shaped r \<Longrightarrow> \<exists>b. matches_any filters r = Inr b"
proof (induction filters)
  case Nil
  show ?case by (rule exI[of _ False]) simp
next
  case (Cons a filters)
  from report_shaped_file[OF Cons.prems] obtain s where "py_get r ''file'' (JStr []) = Inr (JStr s)" ..
  with Cons show ?case by (auto split: bool.splits)
qed

lemma filter_reports_total:
  "list_all report_shaped rs \<Longrightarrow>
   \<exists>kept. filter_reports filters rs = Inr kept \<and> list_all report_shaped kept"
proof (induction rs)
  case Nil
  then show ?case by simp
next
  case (Cons r rs)
  from Cons.prems have "report_shaped r" by simp
  from matches_any_total[OF this] obtain b where "matches_any filters r = Inr b" ..
  with Cons show ?case by auto
qed

lemma report_loop_total:
  assumes "hashable pkg_name" and "list_all report_shaped rest"
  shows "\<exists>m' p' v'. report_loop pkg_name filtered rest (m, p, v) = Inr (m', p', v') \<and>
     (map_of p' ''raw_reports'' = map_of p ''raw_reports'' \<or>
      map_of p' ''raw_reports'' = Some (JArr filtered)) \<and>
     map_of p' ''pkg'' = map_of p ''pkg''"
  using assms(2)
proof (induction rest arbitrary: m p v)
  case Nil
  then show ?case by simp
next
  case (Cons r rest)
  from Cons.prems have "report_shaped r" and rest: "list_all report_shaped rest" by simp_all
  from report_shaped_file[OF this(1)] obtain s where s: "py_get r ''file'' (JStr []) = Inr (JStr s)" ..
  show ?case
  proof (cases "has_file m (JStr s)")
    case True
    with s assms(1) Cons.IH[OF rest, of "add_pkg m (JStr s) pkg_name" p v] show ?thesis by simp
  next
    case False
    show ?thesis
    proof (cases "filtered = []")
      case True
      with False s assms(1) Cons.IH[OF rest, of "m @ [(JStr s, [pkg_name])]" p v]
      show ?thesis by simp
    next
      case nonempty: False
      let ?p = "set_item (set_item p ''raw_reports'' (JArr filtered)) ''count'' (JInt (int (length filtered)))"
      let ?v = "if \<not> py_in_list (JObj ?p) v then v @ [JObj ?p] else v"
      from Cons.IH[OF rest, of "m @ [(JStr s, [pkg_name])]" ?p ?v]
      obtain m' p' v' where
        "report_loop pkg_name filtered rest (m @ [(JStr s, [pkg_name])], ?p, ?v) = Inr (m', p', v')"
        "map_of p' ''raw_reports'' = map_of ?p ''raw_reports'' \<or> map_of p' ''raw_reports'' = Some (JArr filtered)"
        "map_of p' ''pkg'' = map_of ?p ''pkg''"
        by blast
      with False nonempty s assms(1) show ?thesis
        by (simp add: Let_def map_of_set_item)
    qed
  qed
qed

lemma package_body_total:
  assumes "package_shaped package"
  shows "\<exists>m' p' v'. package_body filters package (m, v) = Inr (m', p', v') \<and> package_shaped p'"
proof -
  from assms obtain e where e: "package = JObj e"
    unfolding package_shaped_def by (auto split: json.splits)
  define pkg_name where "pkg_name = (case map_of e ''pkg'' of None \<Rightarrow> JStr [] | Some v \<Rightarrow> v)"
  define raw where "raw = (case map_of e ''raw_reports'' of None \<Rightarrow> JArr [] | Some v \<Rightarrow> v)"
  from assms e have h: "hashable pkg_name"
    unfolding package_shaped_def pkg_name_def by (auto split: option.splits)
  from assms e obtain rs where rs: "raw = JArr rs" "list_all report_shaped rs"
    unfolding package_shaped_def raw_def by (auto split: option.splits json.splits)
  from filter_reports_total[OF rs(2)] obtain filtered where
    fl: "filter_reports filters rs = Inr filtered" "list_all report_shaped filtered" by blast
  from report_loop_total[OF h fl(2), of filtered m e v] obtain m' p' v' where
    rl: "report_loop pkg_name filtered filtered (m, e, v) = Inr (m', p', v')"
    and rr: "map_of p' ''raw_reports'' = map_of e ''raw_reports'' \<or>
      map_of p' ''raw_reports'' = Some (JArr filtered)"
    and pk: "map_of p' ''pkg'' = map_of e ''pkg''"
    by blast
  have "package_body filters package (m, v) = Inr (m', JObj p', v')"
    unfolding package_body_def using e rs(1) fl(1) rl
    by (simp add: pkg_name_def[symmetric] raw_def[symmetric])
  moreover have "package_shaped (JObj p')"
    using assms e rr pk fl(2) unfolding package_shaped_def by auto
  ultimately show ?thesis by blast
qed

lemma package_loop_total:
  "list_all package_shaped pkgs \<Longrightarrow> list_all package_shaped d \<Longrightarrow>
   \<exists>m' d' v'. package_loop filters pkgs (m, d, v) = Inr (m', d', v') \<and> list_all package_shaped d'"
proof (induction pkgs arbitrary: m d v)
  case Nil
  then show ?case by simp
next
  case (Cons p pkgs)
  from Cons.prems have "package_shaped p" and rest: "list_all package_shaped pkgs" by simp_all
  from package_body_total[OF this(1), of filters m v] obtain m1 p1 v1 where
    b: "package_body filters p (m, v) = Inr (m1, p1, v1)" "package_shaped p1" by blast
  from Cons.IH[OF rest, of "d @ [p1]" m1 v1] b(2) Cons.prems(2) obtain m' d' v' where
    "package_loop filters pkgs (m1, d @ [p1], v1) = Inr (m', d', v')" "list_all package_shaped d'"
    by auto
  with b(1) show ?case by simp
qed

lemma find_lock_total:
  "list_all report_shaped rs \<Longrightarrow> \<exists>found. find_lock rs = Inr found"
proof (induction rs)
  case Nil
  then show ?case by simp
next
  case (Cons r rs)
  from Cons.prems have "report_shaped r" by simp
  from report_shaped_file[OF this] obtain s where "py_get r ''file'' (JStr []) = Inr (JStr s)" ..
  with Cons show ?case by (auto split: bool.splits)
qed

lemma lockfile_loop_total:
  "list_all package_shaped pkgs \<Longrightarrow> \<exists>found. lockfile_loop pkgs = Inr found"
proof (induction pkgs)
  case Nil
  then show ?case by simp
next
  case (Cons p pkgs)
  from Cons.prems obtain e where e: "p = JObj e"
    unfolding package_shaped_def by (auto split: json.splits)
  from Cons.prems e obtain rs where
    rs: "py_iter (case map_of e ''raw_reports'' of None \<Rightarrow> JArr [] | Some v \<Rightarrow> v) = Inr rs"
      "list_all report_shaped rs"
    unfolding package_shaped_def by (auto split: option.splits json.splits)
  from find_lock_total[OF rs(2)] obtain found where "find_lock rs = Inr found" ..
  with Cons e rs(1) show ?case by (auto split: option.splits)
qed

lemma apply_filter_total:
  assumes "map_of entries ''data'' = Some (JArr pkgs)" and "list_all package_shaped pkgs"
  shows "\<exists>out. apply_filter (JObj entries) filters = Inr out"
proof -
  from assms(1) have k: "''data'' \<in> set (map fst entries)"
    by (metis map_of_eq_None_iff option.distinct(1) set_map)
  from package_loop_total[OF assms(2), of "[]" filters "[]" "[]"] obtain m d v where
    pl: "package_loop filters pkgs ([], [], []) = Inr (m, d, v)" "list_all package_shaped d"
    by auto
  from lockfile_loop_total[OF pl(2)] obtain found where "lockfile_loop d = Inr found" ..
  with k assms(1) pl(1) show ?thesis unfolding apply_filter_def by simp
qed

lemma apply_filter_not_iterable:
  assumes "map_of entries ''data'' = Some d" and "d = JNull \<or> (\<exists>b. d = JBool b) \<or> (\<exists>i. d = JInt i)"
  shows "apply_filter (JObj entries) filters = Inl TypeError"
proof -
  from assms(1) have k: "''data'' \<in> set (map fst entries)"
    by (metis map_of_eq_None_iff option.distinct(1) set_map)
  with assms show ?thesis unfolding apply_filter_def by auto
qed

lemma apply_filter_items_not_dicts:
  assumes "map_of entries ''data'' = Some d" and "(\<exists>c cs. d = JStr (c # cs)) \<or> (\<exists>kv kvs. d = JObj (kv # kvs))"
  shows "apply_filter (JObj entries) filters = Inl AttributeError"
proof -
  from assms(1) have k: "''data'' \<in> set (map fst entries)"
    by (metis map_of_eq_None_iff option.distinct(1) set_map)
  with assms show ?thesis unfolding apply_filter_def by (auto simp: package_body_def)
qed

lemma apply_filter_empty_iterable:
  assumes "map_of entries ''data'' = Some d" and "d = JStr [] \<or> d = JObj []"
  shows "apply_filter (JObj entries) filters = Inr (JObj (set_item entries ''data'' (JArr [])))"
proof -
  from assms(1) have k: "''data'' \<in> set (map fst entries)"
    by (metis map_of_eq_None_iff option.distinct(1) set_map)
  with assms show ?thesis unfolding apply_filter_def by auto
qed

lemma apply_filter_not_dict:
  "apply_filter JNull filters = Inl TypeError"
  "apply_filter (JBool b) filters = Inl TypeError"
  "apply_filter (JInt i) filters = Inl TypeError"
  "apply_filter (JArr xs) filters = (if py_in_list (JStr ''data'') xs then Inl AttributeError else Inr (JArr xs))"
  "apply_filter (JStr s) filters = (if str_contains ''data'' s then Inl AttributeError else Inr (JStr s))"
  unfolding apply_filter_def by simp_all

lemma matches_any_default:
  "''file'' \<notin> set (map fst report) \<Longrightarrow>
   matches_any filters (JObj report) = matches_any filters (JObj ((''file'', JStr []) # report))"
proof (induction filters)
  case Nil
  then show ?case by simp
next
  case (Cons a filters)
  from Cons.prems have "map_of report ''file'' = None"
    by (simp add: map_of_eq_None_iff)
  with Cons show ?case by (simp split: bool.splits)
qed

subsection \<open>What a pattern matches\<close>

lemma match_here_literal:
  "match_here (literal t @ p) s = (\<exists>rest. s = t @ rest \<and> match_here p rest)"
proof (induction t arbitrary: s)
  case Nil
  then show ?case by (simp add: literal_def)
next
  case (Cons c t)
  then show ?case by (cases s) (auto simp: literal_def)
qed

lemma match_here_zero_or_more:
  "match_here (ZeroOrMore k # p) s =
     (\<exists>v rest. s = v @ rest \<and> list_all (in_class k) v \<and> match_here p rest)"
proof (induction s)
  case Nil
  then show ?case by simp
next
  case (Cons x xs)
  show ?case
  proof
    assume "match_here (ZeroOrMore k # p) (x # xs)"
    then consider "in_class k x" "match_here (ZeroOrMore k # p) xs" | "match_here p (x # xs)"
      by auto
    then show "\<exists>v rest. x # xs = v @ rest \<and> list_all (in_class k) v \<and> match_here p rest"
    proof cases
      case 1
      with Cons obtain v rest where "xs = v @ rest" "list_all (in_class k) v" "match_here p rest"
        by blast
      with 1(1) have "x # xs = (x # v) @ rest \<and> list_all (in_class k) (x # v) \<and> match_here p rest"
        by simp
      then show ?thesis by blast
    next
      case 2
      then have "x # xs = [] @ (x # xs) \<and> list_all (in_class k) [] \<and> match_here p (x # xs)"
        by simp
      then show ?thesis by blast
    qed
  next
    assume "\<exists>v rest. x # xs = v @ rest \<and> list_all (in_class k) v \<and> match_here p rest"
    then obtain v rest where v: "x # xs = v @ rest" "list_all (in_class k) v" "match_here p rest"
      by blast
    show "match_here (ZeroOrMore k # p) (x # xs)"
    proof (cases v)
      case Nil
      with v have "rest = x # xs" by simp
      with v(3) show ?thesis by simp
    next
      case (Cons y v')
      with v have "x = y" "xs = v' @ rest" "in_class k x" "list_all (in_class k) v'" by simp_all
      with v(3) Cons.IH show ?thesis by auto
    qed
  qed
qed

lemma match_here_one_or_more:
  "match_here (OneOrMore k # p) s =
     (\<exists>v rest. s = v @ rest \<and> v \<noteq> [] \<and> list_all (in_class k) v \<and> match_here p rest)"
proof (cases s)
  case Nil
  then show ?thesis by simp
next
  case (Cons x xs)
  show ?thesis
  proof
    assume "match_here (OneOrMore k # p) s"
    with Cons have "in_class k x" "match_here (ZeroOrMore k # p) xs" by simp_all
    then obtain v rest where "xs = v @ rest" "list_all (in_class k) v" "match_here p rest"
      using match_here_zero_or_more by blast
    with Cons \<open>in_class k x\<close>
    have "s = (x # v) @ rest \<and> x # v \<noteq> [] \<and> list_all (in_class k) (x # v) \<and> match_here p rest"
      by simp
    then show "\<exists>v rest. s = v @ rest \<and> v \<noteq> [] \<and> list_all (in_class k) v \<and> match_here p rest"
      by blast
  next
    assume "\<exists>v rest. s = v @ rest \<and> v \<noteq> [] \<and> list_all (in_class k) v \<and> match_here p rest"
    then obtain v rest where v: "s = v @ rest" "v \<noteq> []" "list_all (in_class k) v" "match_here p rest"
      by blast
    then obtain y v' where "v = y # v'" by (cases v) auto
    with v Cons have "x = y" "xs = v' @ rest" "in_class k x" "list_all (in_class k) v'" by simp_all
    with v(4) Cons show "match_here (OneOrMore k # p) s"
      using match_here_zero_or_more by auto
  qed
qed

lemma re_search_iff:
  "re_search p s = (\<exists>pre rest. s = pre @ rest \<and> match_here p rest)"
proof (induction s)
  case Nil
  then show ?case by simp
next
  case (Cons x xs)
  show ?case
  proof
    assume "re_search p (x # xs)"
    then consider "match_here p (x # xs)" | "re_search p xs" by auto
    then show "\<exists>pre rest. x # xs = pre @ rest \<and> match_here p rest"
    proof cases
      case 1
      then have "x # xs = [] @ (x # xs) \<and> match_here p (x # xs)" by simp
      then show ?thesis by blast
    next
      case 2
      with Cons obtain pre rest where "xs = pre @ rest" "match_here p rest" by blast
      then have "x # xs = (x # pre) @ rest \<and> match_here p rest" by simp
      then show ?thesis by blast
    qed
  next
    assume "\<exists>pre rest. x # xs = pre @ rest \<and> match_here p rest"
    then obtain pre rest where pr: "x # xs = pre @ rest" "match_here p rest" by blast
    show "re_search p (x # xs)"
    proof (cases pre)
      case Nil
      with pr have "rest = x # xs" by simp
      with pr(2) show ?thesis by simp
    next
      case (Cons y pre')
      with pr have "xs = pre' @ rest" by simp
      with pr(2) Cons.IH show ?thesis by auto
    qed
  qed
qed

lemma re_search_literal:
  "re_search (literal t) s = (\<exists>pre post. s = pre @ t @ post)"
proof -
  have "match_here (literal t) r = (\<exists>post. r = t @ post)" for r
    using match_here_literal[of t "[]" r] by simp
  then show ?thesis by (auto simp: re_search_iff)
qed

lemma not_slash_all: "list_all (in_class NotSlash) v = (CHR ''/'' \<notin> set v)"
  by (induction v) auto

lemma match_here_crate_pattern:
  "match_here (literal crate @ [Literal (CHR ''-''), OneOrMore NotSlash, Literal (CHR ''/'')]
       @ literal subpath) r =
     (\<exists>v post. r = crate @ ''-'' @ v @ ''/'' @ subpath @ post \<and> v \<noteq> [] \<and> CHR ''/'' \<notin> set v)"
  (is "?lhs = ?rhs")
proof
  assume ?lhs
  then obtain r1 where r1: "r = crate @ r1"
    "match_here ([Literal (CHR ''-''), OneOrMore NotSlash, Literal (CHR ''/'')] @ literal subpath) r1"
    unfolding match_here_literal by blast
  then obtain r2 where r2: "r1 = CHR ''-'' # r2"
    "match_here (OneOrMore NotSlash # Literal (CHR ''/'') # literal subpath) r2"
    by (cases r1) auto
  then obtain v r3 where r3: "r2 = v @ r3" "v \<noteq> []" "list_all (in_class NotSlash) v"
    "match_here (Literal (CHR ''/'') # literal subpath) r3"
    unfolding match_here_one_or_more by blast
  then obtain r4 where r4: "r3 = CHR ''/'' # r4" "match_here (literal subpath) r4"
    by (cases r3) auto
  from r4(2) obtain post where "r4 = subpath @ post"
    using match_here_literal[of subpath "[]" r4] by auto
  with r1(1) r2(1) r3(1,2,3) r4(1)
  have "r = crate @ ''-'' @ v @ ''/'' @ subpath @ post \<and> v \<noteq> [] \<and> CHR ''/'' \<notin> set v"
    by (simp add: not_slash_all)
  then show ?rhs by blast
next
  assume ?rhs
  then obtain v post where r: "r = crate @ ''-'' @ v @ ''/'' @ subpath @ post"
    and v: "v \<noteq> []" "CHR ''/'' \<notin> set v"
    by blast
  have "match_here (literal subpath) (subpath @ post)"
    using match_here_literal[of subpath "[]" "subpath @ post"] by simp
  then have "match_here (Literal (CHR ''/'') # literal subpath) (''/'' @ subpath @ post)"
    by simp
  with v have "match_here (OneOrMore NotSlash # Literal (CHR ''/'') # literal subpath)
      (v @ ''/'' @ subpath @ post)"
    unfolding match_here_one_or_more not_slash_all[symmetric] by blast
  then have "match_here ([Literal (CHR ''-''), OneOrMore NotSlash, Literal (CHR ''/'')] @ literal subpath)
      (''-'' @ v @ ''/'' @ subpath @ post)"
    by simp
  then show ?lhs unfolding match_here_literal r by blast
qed

lemma re_search_crate_pattern:
  "re_search (literal crate @ [Literal (CHR ''-''), OneOrMore NotSlash, Literal (CHR ''/'')]
       @ literal subpath) s =
     (\<exists>pre v post. s = pre @ crate @ ''-'' @ v @ ''/'' @ subpath @ post
        \<and> v \<noteq> [] \<and> CHR ''/'' \<notin> set v)"
  unfolding re_search_iff match_here_crate_pattern by blast

lemma compile_lines_append:
  "compile_lines (xs @ ys) = compile_lines xs @ compile_lines ys"
  by (induction xs) (simp_all add: Let_def)

subsection \<open>How the first loop leaves the packages, and what the second loop finds\<close>

lemma set_item_same: "map_of entries key = Some v \<Longrightarrow> set_item entries key v = entries"
  by (induction entries key v rule: set_item.induct) (auto split: if_splits)

lemma rewrite_package_idem:
  "rewrite_package filtered (rewrite_package filtered package) = rewrite_package filtered package"
  unfolding rewrite_package_def by (simp add: set_item_same map_of_set_item)

lemma report_loop_package:
  "report_loop pkg_name filtered rest (m, p, v) = Inr (m', p', v') \<Longrightarrow>
   p' = p \<or> (filtered \<noteq> [] \<and> p' = rewrite_package filtered p)"
proof (induction rest arbitrary: m p v)
  case Nil
  then show ?case by simp
next
  case (Cons r rest)
  from Cons.prems obtain m1 p1 v1 where
    step: "report_loop pkg_name filtered rest (m1, p1, v1) = Inr (m', p', v')"
    and p1: "p1 = p \<or> (filtered \<noteq> [] \<and> p1 = rewrite_package filtered p)"
    by (auto split: sum.splits if_splits simp: Let_def rewrite_package_def)
  from Cons.IH[OF step] p1 show ?case
    by (auto simp: rewrite_package_idem)
qed

lemma package_bodyE:
  assumes "package_body filters package (m, v) = Inr (m', package', v')"
  obtains entries entries' filtered where
    "package = JObj entries" "package' = JObj entries'"
    "filter_reports filters (package_reports package) = Inr filtered"
    "report_loop (case map_of entries ''pkg'' of None \<Rightarrow> JStr [] | Some x \<Rightarrow> x)
       filtered filtered (m, entries, v) = Inr (m', entries', v')"
  using assms unfolding package_body_def package_reports_def
  by (auto split: sum.splits json.splits prod.splits)

lemma package_body_left:
  assumes "package_body filters package (m, v) = Inr (m', package', v')"
  shows "left_by_first_loop filters package package'"
proof -
  from assms obtain entries entries' filtered where
    b: "package = JObj entries" "package' = JObj entries'"
      "filter_reports filters (package_reports package) = Inr filtered"
      "report_loop (case map_of entries ''pkg'' of None \<Rightarrow> JStr [] | Some x \<Rightarrow> x)
         filtered filtered (m, entries, v) = Inr (m', entries', v')"
    by (rule package_bodyE)
  from report_loop_package[OF b(4)] b(1,2,3) show ?thesis
    unfolding left_by_first_loop_def by auto
qed

lemma package_loop_left:
  "package_loop filters packages (m, visited, v) = Inr (m', visited', v') \<Longrightarrow>
   \<exists>added. visited' = visited @ added \<and> list_all2 (left_by_first_loop filters) packages added"
proof (induction packages arbitrary: m visited v)
  case Nil
  then show ?case by simp
next
  case (Cons p packages)
  from Cons.prems obtain m1 p1 v1 where
    body: "package_body filters p (m, v) = Inr (m1, p1, v1)"
    and loop: "package_loop filters packages (m1, visited @ [p1], v1) = Inr (m', visited', v')"
    by (auto split: sum.splits prod.splits)
  from Cons.IH[OF loop] obtain added where
    "visited' = (visited @ [p1]) @ added" "list_all2 (left_by_first_loop filters) packages added"
    by blast
  with package_body_left[OF body]
  have "visited' = visited @ (p1 # added) \<and>
     list_all2 (left_by_first_loop filters) (p # packages) (p1 # added)"
    by simp
  then show ?case by blast
qed

lemma find_lock_find:
  "find_lock reports = Inr found \<Longrightarrow> found = List.find names_lockfile reports"
proof (induction reports)
  case Nil
  then show ?case by simp
next
  case (Cons r reports)
  then show ?case
    by (auto simp: names_lockfile_def split: sum.splits bool.splits)
qed

lemma find_append:
  "List.find P (xs @ ys) = (case List.find P xs of None \<Rightarrow> List.find P ys | Some x \<Rightarrow> Some x)"
  by (induction xs) auto

lemma lockfile_loop_find:
  "lockfile_loop packages = Inr found \<Longrightarrow>
   found = List.find names_lockfile (concat (map package_reports packages))"
proof (induction packages)
  case Nil
  then show ?case by simp
next
  case (Cons p packages)
  from Cons.prems obtain reports f where
    r: "package_reports p = reports" "find_lock reports = Inr f"
    and rest: "f = None \<Longrightarrow> lockfile_loop packages = Inr found"
    and hit: "f \<noteq> None \<Longrightarrow> found = f"
    unfolding package_reports_def
    by (auto split: sum.splits option.splits)
  from find_lock_find[OF r(2)] have f: "f = List.find names_lockfile reports" .
  show ?case
  proof (cases f)
    case None
    with rest Cons.IH f r(1) show ?thesis by (simp add: find_append)
  next
    case (Some x)
    with hit have "found = Some x" by simp
    moreover from Some f have "List.find names_lockfile reports = Some x" by simp
    ultimately show ?thesis using r(1) by (simp add: find_append)
  qed
qed

subsection \<open>The first loop, package by package\<close>

lemma package_loop_append:
  "package_loop filters (xs @ ys) state =
     (case package_loop filters xs state of Inl e \<Rightarrow> Inl e | Inr state' \<Rightarrow> package_loop filters ys state')"
proof (induction xs arbitrary: state)
  case Nil
  then show ?case by simp
next
  case (Cons p xs)
  obtain m visited v where "state = (m, visited, v)" by (cases state) auto
  with Cons show ?case by (simp split: sum.splits prod.splits)
qed

lemma package_loop_visited:
  "package_loop filters xs (m, visited, v) =
     (case package_loop filters xs (m, [], v) of
        Inl e \<Rightarrow> Inl e
      | Inr (m', added, v') \<Rightarrow> Inr (m', visited @ added, v'))"
proof (induction xs arbitrary: m visited v)
  case Nil
  then show ?case by simp
next
  case (Cons p xs)
  show ?case
  proof (cases "package_body filters p (m, v)")
    case (Inl e)
    then show ?thesis by simp
  next
    case (Inr r)
    obtain m1 p1 v1 where r: "r = (m1, p1, v1)" by (cases r) auto
    show ?thesis
      using Inr r Cons.IH[of m1 "visited @ [p1]" v1] Cons.IH[of m1 "[p1]" v1]
      by (simp split: sum.splits prod.splits)
  qed
qed

lemma package_body_nothing_kept:
  assumes "package_body filters package (m, v) = Inr (m', package', v')"
    and "filter_reports filters (package_reports package) = Inr []"
  shows "m' = m \<and> package' = package \<and> v' = v"
proof -
  from assms(1) obtain entries entries' filtered where
    b: "package = JObj entries" "package' = JObj entries'"
      "filter_reports filters (package_reports package) = Inr filtered"
      "report_loop (case map_of entries ''pkg'' of None \<Rightarrow> JStr [] | Some x \<Rightarrow> x)
         filtered filtered (m, entries, v) = Inr (m', entries', v')"
    by (rule package_bodyE)
  from b(3) assms(2) have "filtered = []" by simp
  with b show ?thesis by simp
qed

subsection \<open>Equality of hashable values\<close>


lemma py_eq_hashable: "hashable x \<Longrightarrow> py_eq x y \<Longrightarrow> hashable y"
  by (cases x; cases y) auto

lemma py_eq_trans_hashable: "hashable x \<Longrightarrow> py_eq x y \<Longrightarrow> py_eq y z \<Longrightarrow> py_eq x z"
  by (cases x; cases y; cases z) (auto split: if_splits)

lemma py_eq_sym_hashable: "hashable x \<Longrightarrow> py_eq x y \<Longrightarrow> py_eq y x"
  by (cases x; cases y) (auto split: if_splits)

subsection \<open>The record of seen files\<close>

lemma has_file_append:
  "has_file (m @ [(fl, names)]) f = (has_file m f \<or> py_eq fl f)"
  by (auto simp: has_file_def)

lemma map_fst_add_pkg: "map fst (add_pkg m fl pkg_name) = map fst m"
  by (induction m fl pkg_name rule: add_pkg.induct) auto

lemma has_file_keys: "has_file m f = list_ex (\<lambda>k. py_eq k f) (map fst m)"
  by (simp add: has_file_def list_ex_iff)

lemma has_file_add_pkg: "has_file (add_pkg m fl pkg_name) f = has_file m f"
  by (simp add: has_file_keys map_fst_add_pkg)

subsection \<open>The effect of the loop over the filtered reports\<close>

lemma report_file_get:
  "py_get r ''file'' (JStr []) = Inr f \<Longrightarrow> report_file r = f"
  by (simp add: report_file_def)


lemma report_loop_keys_hashable:
  "report_loop pkg_name filtered rest (m, p, v) = Inr (m', p', v') \<Longrightarrow>
   list_all hashable (map fst m) \<Longrightarrow> list_all hashable (map fst m')"
proof (induction rest arbitrary: m p v)
  case Nil
  then show ?case by simp
next
  case (Cons a rest)
  from Cons.prems(1) obtain f where f: "py_get a ''file'' (JStr []) = Inr f" "hashable f"
    by (auto split: sum.splits if_splits)
  from Cons.prems(1) f obtain m1 p1 v1 where
    step: "report_loop pkg_name filtered rest (m1, p1, v1) = Inr (m', p', v')"
    and m1: "m1 = add_pkg m f pkg_name \<or> m1 = m @ [(f, [pkg_name])]"
    by (auto split: if_splits simp: Let_def)
  from m1 f(2) Cons.prems(2) have "list_all hashable (map fst m1)"
    by (auto simp: map_fst_add_pkg)
  from Cons.IH[OF step this] show ?case .
qed

lemma has_file_trans:
  assumes "list_all hashable (map fst m)" and "has_file m f" and "py_eq f g"
  shows "has_file m g"
proof -
  from assms(2) obtain k where k: "k \<in> set (map fst m)" "py_eq k f"
    by (auto simp: has_file_keys list_ex_iff)
  with assms(1) have "hashable k" by (auto simp: list_all_iff)
  from py_eq_trans_hashable[OF this k(2) assms(3)] k(1) show ?thesis
    by (auto simp: has_file_keys list_ex_iff)
qed

lemma report_loop_seen:
  "report_loop pkg_name filtered rest (m, p, v) = Inr (m', p', v') \<Longrightarrow>
   list_all hashable (map fst m) \<Longrightarrow>
   has_file m' g = (has_file m g \<or> list_ex (\<lambda>r. py_eq (report_file r) g) rest)"
proof (induction rest arbitrary: m p v)
  case Nil
  then show ?case by simp
next
  case (Cons a rest)
  from Cons.prems(1) obtain f where f: "py_get a ''file'' (JStr []) = Inr f" "hashable f"
    by (auto split: sum.splits if_splits)
  have af: "report_file a = f" using f(1) by (rule report_file_get)
  show ?case
  proof (cases "has_file m f")
    case True
    with Cons.prems(1) f have
      step: "report_loop pkg_name filtered rest (add_pkg m f pkg_name, p, v) = Inr (m', p', v')"
      by (auto split: if_splits)
    have "list_all hashable (map fst (add_pkg m f pkg_name))"
      using Cons.prems(2) by (simp add: map_fst_add_pkg)
    from Cons.IH[OF step this]
    have "has_file m' g = (has_file m g \<or> list_ex (\<lambda>r. py_eq (report_file r) g) rest)"
      by (simp add: has_file_add_pkg)
    moreover have "has_file m g" if "py_eq f g"
      using has_file_trans[OF Cons.prems(2) True that] .
    ultimately show ?thesis using af by auto
  next
    case False
    with Cons.prems(1) f obtain p1 v1 where
      step: "report_loop pkg_name filtered rest (m @ [(f, [pkg_name])], p1, v1) = Inr (m', p', v')"
      by (auto split: if_splits simp: Let_def)
    have "list_all hashable (map fst (m @ [(f, [pkg_name])]))"
      using Cons.prems(2) f(2) by simp
    from Cons.IH[OF step this] show ?thesis
      using af by (auto simp: has_file_append)
  qed
qed



subsection \<open>Well-formed values\<close>








lemma map_of_rewrite_package:
  "map_of (rewrite_package filtered e) ''raw_reports'' = Some (JArr filtered)"
  "map_of (rewrite_package filtered e) ''count'' = Some (JInt (int (length filtered)))"
  "map_of (rewrite_package filtered e) ''pkg'' = map_of e ''pkg''"
  by (simp_all add: rewrite_package_def map_of_set_item)




subsection \<open>Equal dictionaries have equal entries\<close>





subsection \<open>A package with an unseen file is not yet in the list\<close>



subsection \<open>The effect of the loop body for one package\<close>

lemma package_body_surviving:
  assumes "package_body filters package (m, v) = Inr (m', package', v')"
  obtains entries entries' where
    "package = JObj entries" "package' = JObj entries'"
    "filter_reports filters (package_reports package) = Inr (surviving filters package)"
    "report_loop (case map_of entries ''pkg'' of None \<Rightarrow> JStr [] | Some x \<Rightarrow> x)
       (surviving filters package) (surviving filters package) (m, entries, v)
       = Inr (m', entries', v')"
proof -
  from assms obtain entries entries' filtered where
    b: "package = JObj entries" "package' = JObj entries'"
      "filter_reports filters (package_reports package) = Inr filtered"
      "report_loop (case map_of entries ''pkg'' of None \<Rightarrow> JStr [] | Some x \<Rightarrow> x)
         filtered filtered (m, entries, v) = Inr (m', entries', v')"
    by (rule package_bodyE)
  from b(3) have "surviving filters package = filtered" by (simp add: surviving_def)
  with b that show ?thesis by simp
qed


subsection \<open>The effect of the first loop\<close>

lemma seen_in_Nil: "seen_in filters [] g = False"
  by (simp add: seen_in_def)

lemma seen_in_Cons:
  "seen_in filters (p # ps) g =
     (list_ex (\<lambda>r. py_eq (report_file r) g) (surviving filters p) \<or> seen_in filters ps g)"
  by (simp add: seen_in_def)

lemma seen_in_append:
  "seen_in filters (xs @ ys) g = (seen_in filters xs g \<or> seen_in filters ys g)"
  by (simp add: seen_in_def)




subsection \<open>Running the first loop again on its own output\<close>








lemma lockfile_loop_found_dict:
  assumes "lockfile_loop ps = Inr (Some r)"
  shows "\<exists>a. r = JObj a"
proof -
  from lockfile_loop_find[OF assms] have "names_lockfile r"
    by (metis find_Some_iff)
  then show ?thesis by (cases r) (auto simp: names_lockfile_def)
qed


subsection \<open>The substring test\<close>

lemma take_length_eq_iff:
  "(take (length t) s = t) = (\<exists>post. s = t @ post)"
proof
  assume "take (length t) s = t"
  then have "s = t @ drop (length t) s" by (metis append_take_drop_id)
  then show "\<exists>post. s = t @ post" ..
next
  assume "\<exists>post. s = t @ post"
  then show "take (length t) s = t" by auto
qed

lemma str_contains_iff:
  "str_contains t s = (\<exists>pre post. s = pre @ t @ post)"
proof (induction s)
  case Nil
  then show ?case by auto
next
  case (Cons c cs)
  show ?case
  proof
    assume "str_contains t (c # cs)"
    then consider "take (length t) (c # cs) = t" | "str_contains t cs" by auto
    then show "\<exists>pre post. c # cs = pre @ t @ post"
    proof cases
      case 1
      then obtain post where "c # cs = t @ post" unfolding take_length_eq_iff ..
      then have "c # cs = [] @ t @ post" by simp
      then show ?thesis by blast
    next
      case 2
      with Cons obtain pre post where "cs = pre @ t @ post" by blast
      then have "c # cs = (c # pre) @ t @ post" by simp
      then show ?thesis by blast
    qed
  next
    assume "\<exists>pre post. c # cs = pre @ t @ post"
    then obtain pre post where pp: "c # cs = pre @ t @ post" by blast
    show "str_contains t (c # cs)"
    proof (cases pre)
      case Nil
      with pp have "\<exists>post. c # cs = t @ post" by auto
      then have "take (length t) (c # cs) = t" unfolding take_length_eq_iff .
      then show ?thesis by simp
    next
      case (Cons d pre')
      with pp have "cs = pre' @ t @ post" by simp
      with Cons.IH have "str_contains t cs" by blast
      then show ?thesis by simp
    qed
  qed
qed

lemma names_lockfile_string:
  "map_of e ''file'' = Some (JStr s) \<Longrightarrow>
   names_lockfile (JObj e) = (\<exists>pre post. s = pre @ ''Cargo.lock'' @ post)"
  by (simp add: names_lockfile_def str_contains_iff)

lemma compile_lines_map:
  "compile_lines file_lines =
     map compile_path (filter (\<lambda>path. path \<noteq> []) (map strip file_lines))"
  by (induction file_lines) (simp_all add: Let_def)

subsection \<open>Which packages the first loop rewrites\<close>

lemma report_loop_rewrite:
  assumes "report_loop pkg_name filtered rest (m, p, v) = Inr (m', p', v')"
    and "filtered \<noteq> []"
  shows "p' = (if list_ex (\<lambda>r. \<not> has_file m (report_file r)) rest
               then rewrite_package filtered p else p)"
  using assms(1)
proof (induction rest arbitrary: m p v)
  case Nil
  then show ?case by simp
next
  case (Cons a rest)
  from Cons.prems(1) obtain f where f: "py_get a ''file'' (JStr []) = Inr f" "hashable f"
    by (auto split: sum.splits if_splits)
  have af: "report_file a = f" using f(1) by (rule report_file_get)
  show ?case
  proof (cases "has_file m f")
    case True
    with Cons.prems(1) f have
      step: "report_loop pkg_name filtered rest (add_pkg m f pkg_name, p, v) = Inr (m', p', v')"
      by (auto split: if_splits)
    from Cons.IH[OF step] True af show ?thesis
      by (simp add: has_file_add_pkg)
  next
    case False
    with Cons.prems(1) f assms(2) obtain v1 where
      step: "report_loop pkg_name filtered rest
        (m @ [(f, [pkg_name])], rewrite_package filtered p, v1) = Inr (m', p', v')"
      by (auto split: if_splits simp: Let_def rewrite_package_def)
    from Cons.IH[OF step] have "p' = rewrite_package filtered p"
      by (simp add: rewrite_package_idem split: if_splits)
    with False af show ?thesis by simp
  qed
qed

lemma report_loop_valid_sub:
  "report_loop pkg_name filtered rest (m, p, v) = Inr (m', p', v') \<Longrightarrow>
   set v' \<subseteq> set v \<union> {JObj p'}"
proof (induction rest arbitrary: m p v)
  case Nil
  then show ?case by auto
next
  case (Cons a rest)
  from Cons.prems(1) obtain f where f: "py_get a ''file'' (JStr []) = Inr f" "hashable f"
    by (auto split: sum.splits if_splits)
  show ?case
  proof (cases "has_file m f \<or> filtered = []")
    case True
    with Cons.prems(1) f obtain m1 where
      step: "report_loop pkg_name filtered rest (m1, p, v) = Inr (m', p', v')"
      by (auto split: if_splits)
    from Cons.IH[OF step] show ?thesis .
  next
    case False
    let ?rw = "rewrite_package filtered p"
    from False Cons.prems(1) f obtain v1 where
      step: "report_loop pkg_name filtered rest (m @ [(f, [pkg_name])], ?rw, v1) = Inr (m', p', v')"
      and v1: "set v1 \<subseteq> set v \<union> {JObj ?rw}"
      by (auto split: if_splits simp: Let_def rewrite_package_def)
    from report_loop_package[OF step] have "p' = ?rw" by (auto simp: rewrite_package_idem)
    with Cons.IH[OF step] v1 show ?thesis by auto
  qed
qed

lemma package_body_exact:
  assumes body: "package_body filters package (m, v) = Inr (m', package', v')"
    and hk: "list_all hashable (map fst m)"
    and seen: "\<forall>g. has_file m g = seen_in filters before g"
  shows "package' = left_as filters before package"
    and "set v' \<subseteq> set v \<union> {package'}"
    and "list_all hashable (map fst m')"
    and "\<forall>g. has_file m' g = seen_in filters (before @ [package]) g"
proof -
  let ?f = "surviving filters package"
  from body obtain entries entries' where
    p: "package = JObj entries" "package' = JObj entries'"
    and rl: "report_loop (case map_of entries ''pkg'' of None \<Rightarrow> JStr [] | Some x \<Rightarrow> x)
       ?f ?f (m, entries, v) = Inr (m', entries', v')"
    by (rule package_body_surviving)
  have same: "(\<lambda>r. \<not> has_file m (report_file r)) = (\<lambda>r. \<not> seen_in filters before (report_file r))"
    using seen by simp
  show "package' = left_as filters before package"
  proof (cases "?f = []")
    case True
    with rl p show ?thesis by (simp add: left_as_def)
  next
    case False
    from report_loop_rewrite[OF rl False] p show ?thesis
      by (simp add: left_as_def same)
  qed
  from report_loop_valid_sub[OF rl] p(2) show "set v' \<subseteq> set v \<union> {package'}" by simp
  from report_loop_keys_hashable[OF rl hk] show "list_all hashable (map fst m')" .
  from report_loop_seen[OF rl hk] seen
  show "\<forall>g. has_file m' g = seen_in filters (before @ [package]) g"
    by (simp add: seen_in_append seen_in_Cons seen_in_Nil)
qed

lemma package_loop_exact:
  "package_loop filters ps (m, visited, v) = Inr (m', visited', v') \<Longrightarrow>
   list_all hashable (map fst m) \<Longrightarrow> \<forall>g. has_file m g = seen_in filters before g \<Longrightarrow>
   visited' = visited @ first_loop_leaves filters before ps \<and>
   set v' \<subseteq> set v \<union> set (first_loop_leaves filters before ps)"
proof (induction ps arbitrary: m visited v before)
  case Nil
  then show ?case by simp
next
  case (Cons p ps)
  from Cons.prems(1) obtain m1 p1 v1 where
    body: "package_body filters p (m, v) = Inr (m1, p1, v1)"
    and loop: "package_loop filters ps (m1, visited @ [p1], v1) = Inr (m', visited', v')"
    by (auto split: sum.splits prod.splits)
  note b = package_body_exact[OF body Cons.prems(2,3)]
  from Cons.IH[OF loop b(3,4)] have
    "visited' = (visited @ [p1]) @ first_loop_leaves filters (before @ [p]) ps"
    "set v' \<subseteq> set v1 \<union> set (first_loop_leaves filters (before @ [p]) ps)"
    by simp_all
  with b(1,2) show ?case by auto
qed

lemma package_loop_exact_start:
  assumes "package_loop filters ps ([], [], []) = Inr (m, visited, v)"
  shows "visited = first_loop_leaves filters [] ps" and "set v \<subseteq> set visited"
proof -
  have "\<forall>g. has_file [] g = seen_in filters [] g"
    by (simp add: has_file_def seen_in_Nil)
  from package_loop_exact[OF assms _ this] show "visited = first_loop_leaves filters [] ps"
    and "set v \<subseteq> set visited" by simp_all
qed

subsection \<open>The second loop on the output of the first\<close>


lemma lockfile_loop_dict:
  "py_iter (case map_of e ''raw_reports'' of None \<Rightarrow> JArr [] | Some x \<Rightarrow> x) = Inr reports \<Longrightarrow>
   lockfile_loop (JObj e # rest) =
     (case find_lock reports of
        Inl err \<Rightarrow> Inl err
      | Inr None \<Rightarrow> lockfile_loop rest
      | Inr (Some r) \<Rightarrow> Inr (Some r))"
  by (simp split: sum.splits option.splits)

lemma lockfile_loop_rewritten:
  "lockfile_loop (JObj (rewrite_package filtered e) # rest) =
     (case find_lock filtered of
        Inl err \<Rightarrow> Inl err
      | Inr None \<Rightarrow> lockfile_loop rest
      | Inr (Some r) \<Rightarrow> Inr (Some r))"
  by (rule lockfile_loop_dict) (simp add: map_of_rewrite_package)

lemma package_reports_rewritten:
  "package_reports (JObj (rewrite_package filtered e)) = filtered"
  by (simp add: package_reports_def map_of_rewrite_package)









section \<open>Properties\<close>

subsection \<open>The worked example of the specification\<close>

text \<open>
  C1, as stated: on the example document and the five built-in rules the new data list is
  the bare lockfile report alone. It is not: the report on \<open>x/Cargo.lock\<close> is removed
  from the package by the built-in rule, the package survives with the report on
  \<open>src/main.rs\<close>, and the second loop then reads the rewritten package, where no lockfile
  report is left.
\<close>

theorem example_output_is_not_the_lockfile_report:
  "apply_filter lockfile_and_source_doc (load_filter_patterns [])
     \<noteq> Inr (JObj [(''data'', JArr [JObj [(''file'', JStr ''x/Cargo.lock'')]])])"
  by code_simp

text \<open>
  C1, amended: on the example document and the five built-in rules (an empty rule file)
  the new data list is the package \<open>p1\<close> alone, with the report on \<open>src/main.rs\<close> as its
  only report and \<open>count\<close> 1; no bare lockfile report follows.
\<close>

theorem example_output:
  "apply_filter lockfile_and_source_doc (load_filter_patterns []) =
     Inr (JObj [(''data'', JArr [JObj [(''pkg'', JStr ''p1''),
       (''raw_reports'', JArr [JObj [(''file'', JStr ''src/main.rs'')]]),
       (''count'', JInt 1)]])])"
  by code_simp

subsection \<open>A lockfile report that no rule removes is emitted twice\<close>

text \<open>
  C10: the report on the file \<open>Cargo.lock\<close> (no slash before it) matches none of the
  built-in rules, so the package survives with it, and the second loop appends the same
  report again as a bare entry.
\<close>

theorem bare_lockfile_emitted_twice:
  "matches_any builtin_rules (report_on ''Cargo.lock'') = Inr False \<and>
   apply_filter bare_lockfile_doc builtin_rules =
     Inr (JObj [(''data'', JArr
       [JObj [(''pkg'', JStr ''p1''), (''raw_reports'', JArr [report_on ''Cargo.lock'']),
              (''count'', JInt 1)],
        report_on ''Cargo.lock''])])"
  by code_simp

subsection \<open>Only the data entry changes\<close>

text \<open>
  C9: a document (a dictionary) without the key \<open>data\<close> is returned as it is, with no
  exception; and when a call on a document returns, every top-level entry under a key
  other than \<open>data\<close> has the value it had before.
\<close>

theorem apply_filter_frame:
  "(''data'' \<notin> set (map fst entries) \<longrightarrow>
      apply_filter (JObj entries) filters = Inr (JObj entries)) \<and>
   (\<forall>out. apply_filter (JObj entries) filters = Inr out \<longrightarrow>
      (\<exists>entries'. out = JObj entries' \<and>
         (\<forall>key. key \<noteq> ''data'' \<longrightarrow> map_of entries' key = map_of entries key)))"
proof (intro conjI impI allI)
  assume "''data'' \<notin> set (map fst entries)"
  then show "apply_filter (JObj entries) filters = Inr (JObj entries)"
    by (rule apply_filter_no_data)
next
  fix out
  assume "apply_filter (JObj entries) filters = Inr out"
  then consider "out = JObj entries" | v where "out = JObj (set_item entries ''data'' v)"
    using apply_filter_result_shape by blast
  then show "\<exists>entries'. out = JObj entries' \<and>
         (\<forall>key. key \<noteq> ''data'' \<longrightarrow> map_of entries' key = map_of entries key)"
    by cases (simp_all add: map_of_set_item)
qed

theorem apply_filter_frame_witness:
  "''data'' \<notin> set (map fst no_data_doc) \<and>
   apply_filter (JObj no_data_doc) builtin_rules = Inr (JObj no_data_doc) \<and>
   apply_filter (JObj tagged_doc) builtin_rules =
     Inr (JObj [(''tool'', JStr ''lockbud''),
       (''data'', JArr [JObj [(''pkg'', JStr ''p1''),
          (''raw_reports'', JArr [report_on ''src/lib.rs'']), (''count'', JInt 1)]]),
       (''version'', JInt 2)]) \<and>
   (\<exists>entries'. apply_filter (JObj tagged_doc) builtin_rules = Inr (JObj entries') \<and>
      map_of entries' ''tool'' = map_of tagged_doc ''tool'' \<and>
      map_of entries' ''version'' = map_of tagged_doc ''version'')"
proof -
  have absent: "''data'' \<notin> set (map fst no_data_doc)"
    by (simp add: no_data_doc_def)
  have run: "apply_filter (JObj tagged_doc) builtin_rules =
     Inr (JObj [(''tool'', JStr ''lockbud''),
       (''data'', JArr [JObj [(''pkg'', JStr ''p1''),
          (''raw_reports'', JArr [report_on ''src/lib.rs'']), (''count'', JInt 1)]]),
       (''version'', JInt 2)])"
    by code_simp
  from apply_filter_frame[of no_data_doc builtin_rules] absent
  have "apply_filter (JObj no_data_doc) builtin_rules = Inr (JObj no_data_doc)" by blast
  moreover have "\<exists>entries'. apply_filter (JObj tagged_doc) builtin_rules = Inr (JObj entries') \<and>
      map_of entries' ''tool'' = map_of tagged_doc ''tool'' \<and>
      map_of entries' ''version'' = map_of tagged_doc ''version''"
  proof -
    from apply_filter_frame[of tagged_doc builtin_rules] run obtain entries' where
      out: "apply_filter (JObj tagged_doc) builtin_rules = Inr (JObj entries')"
      and keep: "\<forall>key. key \<noteq> ''data'' \<longrightarrow> map_of entries' key = map_of tagged_doc key"
      by auto
    from keep have "map_of entries' ''tool'' = map_of tagged_doc ''tool''"
      and "map_of entries' ''version'' = map_of tagged_doc ''version''"
      by simp_all
    with out show ?thesis by blast
  qed
  ultimately show ?thesis using absent run by blast
qed

subsection \<open>The invariant of retained packages\<close>

text \<open>
  C4: when a call on a document with the key \<open>data\<close> returns, the new data list is
  \<open>valid_packages\<close> of the first loop followed by the bare lockfile report, if the second
  loop found one; and every package in \<open>valid_packages\<close> is a dictionary whose
  \<open>raw_reports\<close> is a list of reports whose \<open>file\<close> (the empty string when absent)
  no pattern of the rule list matches, and whose \<open>count\<close> is the length of that list.
\<close>

theorem retained_packages_invariant:
  assumes "apply_filter (JObj entries) filters = Inr out"
    and "''data'' \<in> set (map fst entries)"
  shows "\<exists>d packages m visited valid_packages found.
     py_get (JObj entries) ''data'' (JArr []) = Inr d \<and> py_iter d = Inr packages \<and>
     package_loop filters packages ([], [], []) = Inr (m, visited, valid_packages) \<and>
     lockfile_loop visited = Inr found \<and>
     py_get out ''data'' JNull =
       Inr (JArr (valid_packages @ (case found of None \<Rightarrow> [] | Some raw_report \<Rightarrow> [raw_report]))) \<and>
     (\<forall>p\<in>set valid_packages. \<exists>e rs. p = JObj e \<and>
        map_of e ''raw_reports'' = Some (JArr rs) \<and>
        map_of e ''count'' = Some (JInt (int (length rs))) \<and>
        (\<forall>r\<in>set rs. \<forall>regex\<in>set filters.
           \<exists>s. py_get r ''file'' (JStr []) = Inr (JStr s) \<and> \<not> re_search regex s))"
proof -
  from apply_filter_data[OF assms] obtain d packages m visited valid_packages found where
    d: "py_get (JObj entries) ''data'' (JArr []) = Inr d" "py_iter d = Inr packages"
    and pl: "package_loop filters packages ([], [], []) = Inr (m, visited, valid_packages)"
    and ll: "lockfile_loop visited = Inr found"
    and out: "out = JObj (set_item entries ''data''
       (JArr (valid_packages @ (case found of None \<Rightarrow> [] | Some raw_report \<Rightarrow> [raw_report]))))"
    by blast
  have "retained_ok filters p" if "p \<in> set valid_packages" for p
    using package_loop_valid[OF pl that] by simp
  then have "\<forall>p\<in>set valid_packages. \<exists>e rs. p = JObj e \<and>
        map_of e ''raw_reports'' = Some (JArr rs) \<and>
        map_of e ''count'' = Some (JInt (int (length rs))) \<and>
        (\<forall>r\<in>set rs. \<forall>regex\<in>set filters.
           \<exists>s. py_get r ''file'' (JStr []) = Inr (JStr s) \<and> \<not> re_search regex s)"
    unfolding retained_ok_def by blast
  moreover have "py_get out ''data'' JNull =
       Inr (JArr (valid_packages @ (case found of None \<Rightarrow> [] | Some raw_report \<Rightarrow> [raw_report])))"
    by (simp add: out map_of_set_item)
  ultimately show ?thesis using d pl ll by blast
qed

theorem retained_packages_invariant_witness:
  "apply_filter (JObj tagged_doc) (load_filter_patterns [''core-0.1.0/cell.rs'']) =
     Inr (JObj [(''tool'', JStr ''lockbud''),
       (''data'', JArr [JObj [(''pkg'', JStr ''p1''),
          (''raw_reports'', JArr [report_on ''src/lib.rs'']), (''count'', JInt 1)]]),
       (''version'', JInt 2)]) \<and>
   ''data'' \<in> set (map fst tagged_doc) \<and>
   (\<exists>d packages m visited valid_packages found.
     py_get (JObj tagged_doc) ''data'' (JArr []) = Inr d \<and> py_iter d = Inr packages \<and>
     package_loop (load_filter_patterns [''core-0.1.0/cell.rs'']) packages ([], [], []) =
       Inr (m, visited, valid_packages) \<and>
     lockfile_loop visited = Inr found \<and>
     py_get (JObj [(''tool'', JStr ''lockbud''),
       (''data'', JArr [JObj [(''pkg'', JStr ''p1''),
          (''raw_reports'', JArr [report_on ''src/lib.rs'']), (''count'', JInt 1)]]),
       (''version'', JInt 2)]) ''data'' JNull =
       Inr (JArr (valid_packages @ (case found of None \<Rightarrow> [] | Some raw_report \<Rightarrow> [raw_report]))) \<and>
     (\<forall>p\<in>set valid_packages. \<exists>e rs. p = JObj e \<and>
        map_of e ''raw_reports'' = Some (JArr rs) \<and>
        map_of e ''count'' = Some (JInt (int (length rs))) \<and>
        (\<forall>r\<in>set rs. \<forall>regex\<in>set (load_filter_patterns [''core-0.1.0/cell.rs'']).
           \<exists>s. py_get r ''file'' (JStr []) = Inr (JStr s) \<and> \<not> re_search regex s)))"
proof -
  have run: "apply_filter (JObj tagged_doc) (load_filter_patterns [''core-0.1.0/cell.rs'']) =
     Inr (JObj [(''tool'', JStr ''lockbud''),
       (''data'', JArr [JObj [(''pkg'', JStr ''p1''),
          (''raw_reports'', JArr [report_on ''src/lib.rs'']), (''count'', JInt 1)]]),
       (''version'', JInt 2)])"
    by code_simp
  have present: "''data'' \<in> set (map fst tagged_doc)"
    by (simp add: tagged_doc_def)
  show ?thesis
    by (intro conjI run present retained_packages_invariant[OF run present])
qed

subsection \<open>Malformed documents and missing fields\<close>

text \<open>
  C8, as stated: every document that is not a dictionary, or whose \<open>data\<close> is not a
  sequence, fails with MalformedInputError. The module defines no such exception and
  validates nothing: a list as document is returned as it is, and an empty dictionary
  as \<open>data\<close> is replaced by the empty list, both without any exception.
\<close>

theorem malformed_document_accepted:
  "apply_filter (JArr [JInt 1]) builtin_rules = Inr (JArr [JInt 1]) \<and>
   apply_filter (JObj [(''data'', JObj [])]) builtin_rules = Inr (JObj [(''data'', JArr [])])"
  by code_simp

text \<open>
  C8, amended: a malformed document meets whatever Python raises, or nothing. A document
  that is null, a boolean or a number raises \<open>TypeError\<close>; a list or a string is
  returned unchanged unless it contains \<open>"data"\<close>, and raises \<open>AttributeError\<close> when it
  does. In a dictionary, a \<open>data\<close> that is null, a boolean or a number raises
  \<open>TypeError\<close>, a non-empty string or dictionary raises \<open>AttributeError\<close>, and an empty
  string or dictionary is replaced by the empty list. A report without \<open>file\<close> is
  matched like a report whose \<open>file\<close> is the empty string, and a document of the
  expected shape, where \<open>file\<close>, \<open>pkg\<close> and \<open>raw_reports\<close> may be missing, raises no
  exception.
\<close>

theorem malformed_and_missing:
  "apply_filter JNull filters = Inl TypeError \<and>
   apply_filter (JBool b) filters = Inl TypeError \<and>
   apply_filter (JInt i) filters = Inl TypeError \<and>
   apply_filter (JArr xs) filters =
     (if py_in_list (JStr ''data'') xs then Inl AttributeError else Inr (JArr xs)) \<and>
   apply_filter (JStr s) filters =
     (if str_contains ''data'' s then Inl AttributeError else Inr (JStr s)) \<and>
   (map_of entries ''data'' = Some d \<longrightarrow>
      (d = JNull \<or> d = JBool b \<or> d = JInt i \<longrightarrow>
         apply_filter (JObj entries) filters = Inl TypeError) \<and>
      (d = JStr (c # cs) \<or> d = JObj (kv # kvs) \<longrightarrow>
         apply_filter (JObj entries) filters = Inl AttributeError) \<and>
      (d = JStr [] \<or> d = JObj [] \<longrightarrow>
         apply_filter (JObj entries) filters = Inr (JObj (set_item entries ''data'' (JArr [])))) \<and>
      (d = JArr pkgs \<and> list_all package_shaped pkgs \<longrightarrow>
         (\<exists>out. apply_filter (JObj entries) filters = Inr out))) \<and>
   (''file'' \<notin> set (map fst report) \<longrightarrow>
      matches_any filters (JObj report) = matches_any filters (JObj ((''file'', JStr []) # report)))"
proof -
  have "apply_filter (JObj entries) filters = Inl TypeError"
    if "map_of entries ''data'' = Some d" "d = JNull \<or> d = JBool b \<or> d = JInt i"
    using apply_filter_not_iterable[OF that(1)] that(2) by blast
  moreover have "apply_filter (JObj entries) filters = Inl AttributeError"
    if "map_of entries ''data'' = Some d" "d = JStr (c # cs) \<or> d = JObj (kv # kvs)"
    using apply_filter_items_not_dicts[OF that(1)] that(2) by blast
  moreover have "apply_filter (JObj entries) filters = Inr (JObj (set_item entries ''data'' (JArr [])))"
    if "map_of entries ''data'' = Some d" "d = JStr [] \<or> d = JObj []"
    using apply_filter_empty_iterable[OF that] .
  moreover have "\<exists>out. apply_filter (JObj entries) filters = Inr out"
    if "map_of entries ''data'' = Some d" "d = JArr pkgs \<and> list_all package_shaped pkgs"
    using apply_filter_total[of entries pkgs filters] that by simp
  moreover have "matches_any filters (JObj report) = matches_any filters (JObj ((''file'', JStr []) # report))"
    if "''file'' \<notin> set (map fst report)"
    using that by (rule matches_any_default)
  ultimately show ?thesis
    using apply_filter_not_dict by simp
qed

theorem malformed_and_missing_witness:
  "apply_filter (JObj [(''data'', JInt 5)]) builtin_rules = Inl TypeError \<and>
   apply_filter (JObj [(''data'', JStr ''ab'')]) builtin_rules = Inl AttributeError \<and>
   apply_filter (JObj [(''data'', JStr [])]) builtin_rules = Inr (JObj [(''data'', JArr [])]) \<and>
   list_all package_shaped
     [JObj [(''raw_reports'', JArr [JObj [(''line'', JInt 1)]])],
      JObj [(''pkg'', JStr ''b''), (''raw_reports'', JArr [JObj [(''file'', JStr [])]])]] \<and>
   (\<exists>out. apply_filter (JObj missing_fields_doc) builtin_rules = Inr out) \<and>
   apply_filter (JObj missing_fields_doc) builtin_rules =
     Inr (JObj [(''data'', JArr
       [JObj [(''raw_reports'', JArr [JObj [(''line'', JInt 1)]]), (''count'', JInt 1)]])]) \<and>
   matches_any builtin_rules (JObj [(''line'', JInt 1)]) =
     matches_any builtin_rules (JObj [(''file'', JStr []), (''line'', JInt 1)])"
proof -
  let ?pkgs = "[JObj [(''raw_reports'', JArr [JObj [(''line'', JInt 1)]])],
      JObj [(''pkg'', JStr ''b''), (''raw_reports'', JArr [JObj [(''file'', JStr [])]])]]"
  have shaped: "list_all package_shaped ?pkgs"
    by (simp add: package_shaped_def report_shaped_def)
  have data: "map_of missing_fields_doc ''data'' = Some (JArr ?pkgs)"
    by (simp add: missing_fields_doc_def)
  have out: "apply_filter (JObj missing_fields_doc) builtin_rules =
     Inr (JObj [(''data'', JArr
       [JObj [(''raw_reports'', JArr [JObj [(''line'', JInt 1)]]), (''count'', JInt 1)]])])"
    by code_simp
  have nofile: "''file'' \<notin> set (map fst [(''line'', JInt 1)])" by simp
  from malformed_and_missing[where filters = builtin_rules and i = 5
      and entries = "[(''data'', JInt 5)]" and d = "JInt 5"]
  have "apply_filter (JObj [(''data'', JInt 5)]) builtin_rules = Inl TypeError" by simp
  moreover
  from malformed_and_missing[where filters = builtin_rules
      and entries = "[(''data'', JStr ''ab'')]" and d = "JStr ''ab''" and c = "CHR ''a''" and cs = "''b''"]
  have "apply_filter (JObj [(''data'', JStr ''ab'')]) builtin_rules = Inl AttributeError" by simp
  moreover
  from malformed_and_missing[where filters = builtin_rules
      and entries = "[(''data'', JStr [])]" and d = "JStr []"]
  have "apply_filter (JObj [(''data'', JStr [])]) builtin_rules = Inr (JObj [(''data'', JArr [])])"
    by simp
  moreover
  from malformed_and_missing[where filters = builtin_rules
      and entries = missing_fields_doc and d = "JArr ?pkgs" and pkgs = ?pkgs]
    data shaped
  have "\<exists>out. apply_filter (JObj missing_fields_doc) builtin_rules = Inr out" by blast
  moreover
  from malformed_and_missing[where filters = builtin_rules and report = "[(''line'', JInt 1)]"] nofile
  have "matches_any builtin_rules (JObj [(''line'', JInt 1)]) =
     matches_any builtin_rules (JObj [(''file'', JStr []), (''line'', JInt 1)])" by blast
  ultimately show ?thesis using shaped out by blast
qed

subsection \<open>Rule-file lines\<close>

text \<open>
  C7: a line with a slash compiles to a pattern that is literal but for one wildcard:
  it is found in exactly the strings that contain the crate name (the line up to its
  first \<open>-\<close> or \<open>/\<close>), a \<open>-\<close>, one or more characters other than \<open>/\<close>, a \<open>/\<close> and
  the rest of the line after its first \<open>/\<close>. The line \<open>foo-1.2.3/bar/baz.rs\<close> gives one
  rule before the built-in ones, found in \<open>foo-9.9.9/bar/baz.rs\<close> and not in
  \<open>other-1.2.3/bar/baz.rs\<close>. A line that is blank after stripping gives no rule.
  For a file of any length, the rules loaded are the patterns of its non-blank stripped
  lines, one for each and in the order of the file, followed by the built-in rules; so
  a non-blank line at any position gives its pattern, between the rules of the lines
  before it and those of the lines after it.
\<close>

theorem slash_line_pattern:
  "(CHR ''/'' \<in> set path \<longrightarrow>
      (\<forall>s. re_search (compile_path path) s =
         (\<exists>pre v post.
            s = pre @ takeWhile (\<lambda>c. c \<noteq> CHR ''-'') (takeWhile (\<lambda>c. c \<noteq> CHR ''/'') path)
                  @ ''-'' @ v @ ''/'' @ tl (dropWhile (\<lambda>c. c \<noteq> CHR ''/'') path) @ post
            \<and> v \<noteq> [] \<and> CHR ''/'' \<notin> set v))) \<and>
   load_filter_patterns [''foo-1.2.3/bar/baz.rs'' @ [CHR 0x0A]] =
     compile_path ''foo-1.2.3/bar/baz.rs'' # builtin_rules \<and>
   re_search (compile_path ''foo-1.2.3/bar/baz.rs'') ''foo-9.9.9/bar/baz.rs'' \<and>
   \<not> re_search (compile_path ''foo-1.2.3/bar/baz.rs'') ''other-1.2.3/bar/baz.rs'' \<and>
   (strip line = [] \<longrightarrow>
      load_filter_patterns (before @ line # after) = load_filter_patterns (before @ after)) \<and>
   load_filter_patterns file_lines =
     map compile_path (filter (\<lambda>path. path \<noteq> []) (map strip file_lines)) @ builtin_rules \<and>
   (strip line \<noteq> [] \<longrightarrow>
      (\<exists>earlier later.
         load_filter_patterns before = earlier @ builtin_rules \<and>
         load_filter_patterns after = later @ builtin_rules \<and>
         load_filter_patterns (before @ line # after) =
           earlier @ compile_path (strip line) # later @ builtin_rules))"
proof (intro conjI impI allI)
  fix s
  assume "CHR ''/'' \<in> set path"
  then show "re_search (compile_path path) s =
         (\<exists>pre v post.
            s = pre @ takeWhile (\<lambda>c. c \<noteq> CHR ''-'') (takeWhile (\<lambda>c. c \<noteq> CHR ''/'') path)
                  @ ''-'' @ v @ ''/'' @ tl (dropWhile (\<lambda>c. c \<noteq> CHR ''/'') path) @ post
            \<and> v \<noteq> [] \<and> CHR ''/'' \<notin> set v)"
    unfolding compile_path_def Let_def by (simp only: if_True re_search_crate_pattern)
next
  show "load_filter_patterns [''foo-1.2.3/bar/baz.rs'' @ [CHR 0x0A]] =
     compile_path ''foo-1.2.3/bar/baz.rs'' # builtin_rules"
    by code_simp
next
  show "re_search (compile_path ''foo-1.2.3/bar/baz.rs'') ''foo-9.9.9/bar/baz.rs''"
    by code_simp
next
  show "\<not> re_search (compile_path ''foo-1.2.3/bar/baz.rs'') ''other-1.2.3/bar/baz.rs''"
    by code_simp
next
  assume "strip line = []"
  then show "load_filter_patterns (before @ line # after) = load_filter_patterns (before @ after)"
    by (simp add: load_filter_patterns_def compile_lines_append)
next
  show "load_filter_patterns file_lines =
     map compile_path (filter (\<lambda>path. path \<noteq> []) (map strip file_lines)) @ builtin_rules"
    by (simp add: load_filter_patterns_def compile_lines_map)
next
  assume "strip line \<noteq> []"
  then have "load_filter_patterns before = compile_lines before @ builtin_rules \<and>
         load_filter_patterns after = compile_lines after @ builtin_rules \<and>
         load_filter_patterns (before @ line # after) =
           compile_lines before @ compile_path (strip line) # compile_lines after @ builtin_rules"
    by (simp add: load_filter_patterns_def compile_lines_append)
  then show "\<exists>earlier later.
         load_filter_patterns before = earlier @ builtin_rules \<and>
         load_filter_patterns after = later @ builtin_rules \<and>
         load_filter_patterns (before @ line # after) =
           earlier @ compile_path (strip line) # later @ builtin_rules"
    by blast
qed

theorem slash_line_pattern_witness:
  "CHR ''/'' \<in> set ''serde-1.0.2/src/de.rs'' \<and>
   re_search (compile_path ''serde-1.0.2/src/de.rs'') ''/registry/serde-1.0.197/src/de.rs:12'' \<and>
   (\<exists>pre v post. ''/registry/serde-1.0.197/src/de.rs:12'' =
      pre @ ''serde'' @ ''-'' @ v @ ''/'' @ ''src/de.rs'' @ post \<and> v \<noteq> [] \<and> CHR ''/'' \<notin> set v) \<and>
   strip ('' '' @ [CHR 0x09, CHR 0x0A]) = [] \<and>
   load_filter_patterns [''a.rs'', '' '' @ [CHR 0x09, CHR 0x0A], ''b.rs''] =
     load_filter_patterns [''a.rs'', ''b.rs''] \<and>
   strip (''serde-1.0.2/src/de.rs'' @ [CHR 0x0A]) = ''serde-1.0.2/src/de.rs'' \<and>
   strip (''serde-1.0.2/src/de.rs'' @ [CHR 0x0A]) \<noteq> [] \<and>
   load_filter_patterns [''a.rs'', [], ''serde-1.0.2/src/de.rs'' @ [CHR 0x0A], ''tokio-1.0/src/io.rs''] =
     [compile_path ''a.rs'', compile_path ''serde-1.0.2/src/de.rs'',
      compile_path ''tokio-1.0/src/io.rs''] @ builtin_rules \<and>
   (\<exists>earlier later.
      load_filter_patterns [''a.rs'', []] = earlier @ builtin_rules \<and>
      load_filter_patterns [''tokio-1.0/src/io.rs''] = later @ builtin_rules \<and>
      load_filter_patterns ([''a.rs'', []] @ (''serde-1.0.2/src/de.rs'' @ [CHR 0x0A])
         # [''tokio-1.0/src/io.rs'']) =
        earlier @ compile_path (strip (''serde-1.0.2/src/de.rs'' @ [CHR 0x0A])) # later
          @ builtin_rules)"
proof -
  have slash: "CHR ''/'' \<in> set ''serde-1.0.2/src/de.rs''" by simp
  have found: "re_search (compile_path ''serde-1.0.2/src/de.rs'') ''/registry/serde-1.0.197/src/de.rs:12''"
    by code_simp
  have blank: "strip ('' '' @ [CHR 0x09, CHR 0x0A]) = []" by code_simp
  have stripped: "strip (''serde-1.0.2/src/de.rs'' @ [CHR 0x0A]) = ''serde-1.0.2/src/de.rs''"
    by code_simp
  then have nonblank: "strip (''serde-1.0.2/src/de.rs'' @ [CHR 0x0A]) \<noteq> []" by simp
  have strips: "map strip [''a.rs'', [], ''serde-1.0.2/src/de.rs'' @ [CHR 0x0A], ''tokio-1.0/src/io.rs'']
      = [''a.rs'', [], ''serde-1.0.2/src/de.rs'', ''tokio-1.0/src/io.rs'']"
    by code_simp
  from slash_line_pattern[where path = "''serde-1.0.2/src/de.rs''"
      and line = "'' '' @ [CHR 0x09, CHR 0x0A]" and before = "[''a.rs'']" and after = "[''b.rs'']"]
  have char: "\<forall>s. re_search (compile_path ''serde-1.0.2/src/de.rs'') s =
         (\<exists>pre v post. s = pre @ ''serde'' @ ''-'' @ v @ ''/'' @ ''src/de.rs'' @ post
            \<and> v \<noteq> [] \<and> CHR ''/'' \<notin> set v)"
    and skip: "strip ('' '' @ [CHR 0x09, CHR 0x0A]) = [] \<longrightarrow>
      load_filter_patterns ([''a.rs''] @ ('' '' @ [CHR 0x09, CHR 0x0A]) # [''b.rs'']) =
      load_filter_patterns ([''a.rs''] @ [''b.rs''])"
    by simp_all
  from char found have "\<exists>pre v post. ''/registry/serde-1.0.197/src/de.rs:12'' =
      pre @ ''serde'' @ ''-'' @ v @ ''/'' @ ''src/de.rs'' @ post \<and> v \<noteq> [] \<and> CHR ''/'' \<notin> set v"
    by blast
  moreover from skip blank have "load_filter_patterns [''a.rs'', '' '' @ [CHR 0x09, CHR 0x0A], ''b.rs''] =
     load_filter_patterns [''a.rs'', ''b.rs'']" by simp
  moreover
  from slash_line_pattern[where file_lines =
      "[''a.rs'', [], ''serde-1.0.2/src/de.rs'' @ [CHR 0x0A], ''tokio-1.0/src/io.rs'']"]
  have "load_filter_patterns [''a.rs'', [], ''serde-1.0.2/src/de.rs'' @ [CHR 0x0A], ''tokio-1.0/src/io.rs''] =
     [compile_path ''a.rs'', compile_path ''serde-1.0.2/src/de.rs'',
      compile_path ''tokio-1.0/src/io.rs''] @ builtin_rules"
    unfolding strips by simp
  moreover
  from slash_line_pattern[where line = "''serde-1.0.2/src/de.rs'' @ [CHR 0x0A]"
      and before = "[''a.rs'', []]" and after = "[''tokio-1.0/src/io.rs'']"] nonblank
  have "\<exists>earlier later.
      load_filter_patterns [''a.rs'', []] = earlier @ builtin_rules \<and>
      load_filter_patterns [''tokio-1.0/src/io.rs''] = later @ builtin_rules \<and>
      load_filter_patterns ([''a.rs'', []] @ (''serde-1.0.2/src/de.rs'' @ [CHR 0x0A])
         # [''tokio-1.0/src/io.rs'']) =
        earlier @ compile_path (strip (''serde-1.0.2/src/de.rs'' @ [CHR 0x0A])) # later
          @ builtin_rules"
    by blast
  ultimately show ?thesis using slash found blank stripped nonblank by blast
qed

subsection \<open>The second loop reads what the first loop left\<close>

text \<open>
  C2, as stated: the second loop scans the report lists of the original input, so the
  bare report appended is the first report of the input that names \<open>Cargo.lock\<close>.
  In the document of two packages below, that report is the one on \<open>x/Cargo.lock\<close> in
  the first package (a scan of the original packages finds it), but the first loop
  rewrites that package without it, and what is appended is the report on
  \<open>y/Cargo.lock\<close> of the second package.
\<close>

theorem lockfile_scan_misses_first_lockfile_report:
  "lockfile_loop two_lockfiles_packages = Inr (Some (report_on ''x/Cargo.lock'')) \<and>
   apply_filter (JObj two_lockfiles_doc) builtin_rules =
     Inr (JObj [(''data'', JArr
       [JObj [(''pkg'', JStr ''p1''), (''raw_reports'', JArr [report_on ''src/main.rs'']),
              (''count'', JInt 1)],
        report_on ''y/Cargo.lock''])])"
  by code_simp

text \<open>
  C2, amended: the second loop scans the packages as the first loop left them. The
  first loop rewrites a package in place to its surviving reports exactly when one of
  them is on a file that no surviving report of an earlier package is on; every other
  package is left as it was in the input; and every package of \<open>valid_packages\<close> is one
  of the packages so left. The bare report appended to the new data list is the first
  report, in that package-and-report order, whose \<open>file\<close> contains \<open>Cargo.lock\<close>;
  nothing after it is appended, and when no report left by the first loop contains it,
  no bare report is appended.
\<close>

theorem lockfile_pass_reads_rewritten_packages:
  assumes "apply_filter (JObj entries) filters = Inr out"
    and "''data'' \<in> set (map fst entries)"
  shows "\<exists>d packages m visited valid_packages found.
     py_get (JObj entries) ''data'' (JArr []) = Inr d \<and> py_iter d = Inr packages \<and>
     package_loop filters packages ([], [], []) = Inr (m, visited, valid_packages) \<and>
     list_all2 (left_by_first_loop filters) packages visited \<and>
     visited = first_loop_leaves filters [] packages \<and>
     set valid_packages \<subseteq> set visited \<and>
     found = List.find names_lockfile (concat (map package_reports visited)) \<and>
     py_get out ''data'' JNull =
       Inr (JArr (valid_packages @ (case found of None \<Rightarrow> [] | Some raw_report \<Rightarrow> [raw_report])))"
proof -
  from apply_filter_data[OF assms] obtain d packages m visited valid_packages found where
    d: "py_get (JObj entries) ''data'' (JArr []) = Inr d" "py_iter d = Inr packages"
    and pl: "package_loop filters packages ([], [], []) = Inr (m, visited, valid_packages)"
    and ll: "lockfile_loop visited = Inr found"
    and out: "out = JObj (set_item entries ''data''
       (JArr (valid_packages @ (case found of None \<Rightarrow> [] | Some raw_report \<Rightarrow> [raw_report]))))"
    by blast
  from package_loop_left[OF pl] have "list_all2 (left_by_first_loop filters) packages visited"
    by simp
  moreover note package_loop_exact_start[OF pl]
  moreover from lockfile_loop_find[OF ll]
  have "found = List.find names_lockfile (concat (map package_reports visited))" .
  moreover have "py_get out ''data'' JNull =
       Inr (JArr (valid_packages @ (case found of None \<Rightarrow> [] | Some raw_report \<Rightarrow> [raw_report])))"
    by (simp add: out map_of_set_item)
  ultimately show ?thesis using d pl by blast
qed

theorem lockfile_pass_reads_rewritten_packages_witness:
  "apply_filter (JObj two_lockfiles_doc) builtin_rules =
     Inr (JObj [(''data'', JArr
       [JObj [(''pkg'', JStr ''p1''), (''raw_reports'', JArr [report_on ''src/main.rs'']),
              (''count'', JInt 1)],
        report_on ''y/Cargo.lock''])]) \<and>
   ''data'' \<in> set (map fst two_lockfiles_doc) \<and>
   first_loop_leaves builtin_rules [] two_lockfiles_packages =
     [JObj [(''pkg'', JStr ''p1''), (''raw_reports'', JArr [report_on ''src/main.rs'']),
            (''count'', JInt 1)],
      JObj [(''pkg'', JStr ''p2''), (''raw_reports'', JArr [report_on ''y/Cargo.lock''])]] \<and>
   List.find names_lockfile (concat (map package_reports
     (first_loop_leaves builtin_rules [] two_lockfiles_packages))) =
     Some (report_on ''y/Cargo.lock'') \<and>
   (\<exists>d packages m visited valid_packages found.
     py_get (JObj two_lockfiles_doc) ''data'' (JArr []) = Inr d \<and> py_iter d = Inr packages \<and>
     package_loop builtin_rules packages ([], [], []) = Inr (m, visited, valid_packages) \<and>
     list_all2 (left_by_first_loop builtin_rules) packages visited \<and>
     visited = first_loop_leaves builtin_rules [] packages \<and>
     set valid_packages \<subseteq> set visited \<and>
     found = List.find names_lockfile (concat (map package_reports visited)) \<and>
     py_get (JObj [(''data'', JArr
       [JObj [(''pkg'', JStr ''p1''), (''raw_reports'', JArr [report_on ''src/main.rs'']),
              (''count'', JInt 1)],
        report_on ''y/Cargo.lock''])]) ''data'' JNull =
       Inr (JArr (valid_packages @ (case found of None \<Rightarrow> [] | Some raw_report \<Rightarrow> [raw_report]))))"
proof -
  have run: "apply_filter (JObj two_lockfiles_doc) builtin_rules =
     Inr (JObj [(''data'', JArr
       [JObj [(''pkg'', JStr ''p1''), (''raw_reports'', JArr [report_on ''src/main.rs'']),
              (''count'', JInt 1)],
        report_on ''y/Cargo.lock''])])"
    by code_simp
  have present: "''data'' \<in> set (map fst two_lockfiles_doc)"
    by (simp add: two_lockfiles_doc_def)
  have leaves: "first_loop_leaves builtin_rules [] two_lockfiles_packages =
     [JObj [(''pkg'', JStr ''p1''), (''raw_reports'', JArr [report_on ''src/main.rs'']),
            (''count'', JInt 1)],
      JObj [(''pkg'', JStr ''p2''), (''raw_reports'', JArr [report_on ''y/Cargo.lock''])]]"
    by code_simp
  have scan: "List.find names_lockfile (concat (map package_reports
     (first_loop_leaves builtin_rules [] two_lockfiles_packages))) =
     Some (report_on ''y/Cargo.lock'')"
    by code_simp
  show ?thesis
    by (intro conjI run present leaves scan lockfile_pass_reads_rewritten_packages[OF run present])
qed

subsection \<open>A package with no report left\<close>

text \<open>
  C5, as stated: a package whose reports are all removed by the rules contributes no
  entry of any kind to the new data list. It can contribute the bare lockfile report:
  the first loop does not rewrite such a package, so the second loop reads its original
  reports. For the single package below, whose only report is on \<open>x/Cargo.lock\<close>, the
  filtered list is empty and the new data list is that report.
\<close>

theorem dropped_package_gives_lockfile_report:
  "filter_reports builtin_rules
     (package_reports (JObj [(''pkg'', JStr ''a''),
        (''raw_reports'', JArr [report_on ''x/Cargo.lock''])])) = Inr [] \<and>
   apply_filter (JObj lockfile_only_doc) builtin_rules =
     Inr (JObj [(''data'', JArr [report_on ''x/Cargo.lock''])])"
  by code_simp

text \<open>
  C5, amended: a package whose filtered report list is empty contributes no package
  entry: the first loop leaves the package as it is and produces the same
  \<open>valid_packages\<close>, and the same record of seen files, as on the data list without
  that package. The second loop still reads the package, in its place and with its
  original reports, so the bare lockfile report may come from it.
\<close>

theorem package_with_nothing_kept:
  assumes "apply_filter (JObj entries) filters = Inr out"
    and "map_of entries ''data'' = Some (JArr (before @ package # after))"
    and "filter_reports filters (package_reports package) = Inr []"
  shows "\<exists>m visited1 visited2 valid_packages found.
     package_loop filters (before @ package # after) ([], [], []) =
       Inr (m, visited1 @ package # visited2, valid_packages) \<and>
     length visited1 = length before \<and>
     package_loop filters (before @ after) ([], [], []) =
       Inr (m, visited1 @ visited2, valid_packages) \<and>
     found = List.find names_lockfile
       (concat (map package_reports (visited1 @ package # visited2))) \<and>
     py_get out ''data'' JNull =
       Inr (JArr (valid_packages @ (case found of None \<Rightarrow> [] | Some raw_report \<Rightarrow> [raw_report])))"
proof -
  from assms(2) have present: "''data'' \<in> set (map fst entries)"
    by (metis map_of_eq_None_iff option.distinct(1) set_map)
  from apply_filter_data[OF assms(1) present] assms(2)
  obtain m visited valid_packages found where
    pl: "package_loop filters (before @ package # after) ([], [], []) = Inr (m, visited, valid_packages)"
    and ll: "lockfile_loop visited = Inr found"
    and out: "out = JObj (set_item entries ''data''
       (JArr (valid_packages @ (case found of None \<Rightarrow> [] | Some raw_report \<Rightarrow> [raw_report]))))"
    by auto
  from pl obtain m1 vis1 v1 where
    first: "package_loop filters before ([], [], []) = Inr (m1, vis1, v1)"
    and rest: "package_loop filters (package # after) (m1, vis1, v1) = Inr (m, visited, valid_packages)"
    unfolding package_loop_append by (auto split: sum.splits)
  from rest obtain m2 p2 v2 where
    body: "package_body filters package (m1, v1) = Inr (m2, p2, v2)"
    and tail: "package_loop filters after (m2, vis1 @ [p2], v2) = Inr (m, visited, valid_packages)"
    by (auto split: sum.splits prod.splits)
  from package_body_nothing_kept[OF body assms(3)]
  have same: "m2 = m1" "p2 = package" "v2 = v1" by simp_all
  from tail same obtain added where
    added: "package_loop filters after (m1, [], v1) = Inr (m, added, valid_packages)"
    and visited: "visited = (vis1 @ [package]) @ added"
    using package_loop_visited[of filters after m1 "vis1 @ [package]" v1]
    by (auto split: sum.splits prod.splits)
  from added have "package_loop filters after (m1, vis1, v1) = Inr (m, vis1 @ added, valid_packages)"
    using package_loop_visited[of filters after m1 vis1 v1] by simp
  with first have without: "package_loop filters (before @ after) ([], [], []) =
       Inr (m, vis1 @ added, valid_packages)"
    unfolding package_loop_append by simp
  from package_loop_left[OF first] have len: "length vis1 = length before"
    by (auto dest: list_all2_lengthD)
  from lockfile_loop_find[OF ll] visited
  have found: "found = List.find names_lockfile
       (concat (map package_reports (vis1 @ package # added)))" by simp
  have data: "py_get out ''data'' JNull =
       Inr (JArr (valid_packages @ (case found of None \<Rightarrow> [] | Some raw_report \<Rightarrow> [raw_report])))"
    by (simp add: out map_of_set_item)
  from pl visited have "package_loop filters (before @ package # after) ([], [], []) =
       Inr (m, vis1 @ package # added, valid_packages)" by simp
  with len without found data show ?thesis by blast
qed

theorem package_with_nothing_kept_witness:
  "apply_filter (JObj mixed_packages_doc) builtin_rules =
     Inr (JObj [(''data'', JArr
       [JObj [(''pkg'', JStr ''b''), (''raw_reports'', JArr [report_on ''src/b.rs'']),
              (''count'', JInt 1)],
        report_on ''z/Cargo.lock''])]) \<and>
   map_of mixed_packages_doc ''data'' = Some (JArr
     ([JObj [(''pkg'', JStr ''a''), (''raw_reports'', JArr [report_on ''(virtual) lockbud''])],
       JObj [(''pkg'', JStr ''b''), (''raw_reports'', JArr [report_on ''src/b.rs''])]] @
      JObj [(''pkg'', JStr ''c''),
        (''raw_reports'', JArr [report_on ''virtual audit'', report_on ''z/Cargo.lock''])] # [])) \<and>
   filter_reports builtin_rules (package_reports (JObj [(''pkg'', JStr ''c''),
        (''raw_reports'', JArr [report_on ''virtual audit'', report_on ''z/Cargo.lock''])])) = Inr [] \<and>
   (\<exists>m visited1 visited2 valid_packages found.
     package_loop builtin_rules
       ([JObj [(''pkg'', JStr ''a''), (''raw_reports'', JArr [report_on ''(virtual) lockbud''])],
         JObj [(''pkg'', JStr ''b''), (''raw_reports'', JArr [report_on ''src/b.rs''])]] @
        JObj [(''pkg'', JStr ''c''),
          (''raw_reports'', JArr [report_on ''virtual audit'', report_on ''z/Cargo.lock''])] # [])
       ([], [], []) =
       Inr (m, visited1 @ JObj [(''pkg'', JStr ''c''),
          (''raw_reports'', JArr [report_on ''virtual audit'', report_on ''z/Cargo.lock''])] # visited2,
          valid_packages) \<and>
     length visited1 = length
       [JObj [(''pkg'', JStr ''a''), (''raw_reports'', JArr [report_on ''(virtual) lockbud''])],
        JObj [(''pkg'', JStr ''b''), (''raw_reports'', JArr [report_on ''src/b.rs''])]] \<and>
     package_loop builtin_rules
       ([JObj [(''pkg'', JStr ''a''), (''raw_reports'', JArr [report_on ''(virtual) lockbud''])],
         JObj [(''pkg'', JStr ''b''), (''raw_reports'', JArr [report_on ''src/b.rs''])]] @ [])
       ([], [], []) = Inr (m, visited1 @ visited2, valid_packages) \<and>
     found = List.find names_lockfile
       (concat (map package_reports (visited1 @ JObj [(''pkg'', JStr ''c''),
          (''raw_reports'', JArr [report_on ''virtual audit'', report_on ''z/Cargo.lock''])] # visited2))) \<and>
     py_get (JObj [(''data'', JArr
       [JObj [(''pkg'', JStr ''b''), (''raw_reports'', JArr [report_on ''src/b.rs'']),
              (''count'', JInt 1)],
        report_on ''z/Cargo.lock''])]) ''data'' JNull =
       Inr (JArr (valid_packages @ (case found of None \<Rightarrow> [] | Some raw_report \<Rightarrow> [raw_report]))))"
proof -
  have run: "apply_filter (JObj mixed_packages_doc) builtin_rules =
     Inr (JObj [(''data'', JArr
       [JObj [(''pkg'', JStr ''b''), (''raw_reports'', JArr [report_on ''src/b.rs'']),
              (''count'', JInt 1)],
        report_on ''z/Cargo.lock''])])"
    by code_simp
  have data: "map_of mixed_packages_doc ''data'' = Some (JArr
     ([JObj [(''pkg'', JStr ''a''), (''raw_reports'', JArr [report_on ''(virtual) lockbud''])],
       JObj [(''pkg'', JStr ''b''), (''raw_reports'', JArr [report_on ''src/b.rs''])]] @
      JObj [(''pkg'', JStr ''c''),
        (''raw_reports'', JArr [report_on ''virtual audit'', report_on ''z/Cargo.lock''])] # []))"
    by (simp add: mixed_packages_doc_def)
  have empty: "filter_reports builtin_rules (package_reports (JObj [(''pkg'', JStr ''c''),
        (''raw_reports'', JArr [report_on ''virtual audit'', report_on ''z/Cargo.lock''])])) = Inr []"
    by code_simp
  show ?thesis
    by (intro conjI run data empty package_with_nothing_kept[OF run data empty])
qed

subsection \<open>Packages that share a file\<close>




subsection \<open>Applying the filter twice\<close>




end
